theory Spec2Isabelle
  imports Main "HOL-Library.Sublist"
begin

section \<open>Tencent COS storage client (backend/infra/storage/impl/cos)\<close>

text \<open>
  A shallow embedding of \<^verbatim>\<open>cos.go\<close>. Go strings are byte sequences and are modelled as
  \<open>string\<close>. The Go standard library and the COS SDK are not part of the package. Their
  small functions are modelled after their source (\<^verbatim>\<open>strings.HasPrefix\<close>,
  \<^verbatim>\<open>strings.Trim\<close>, \<^verbatim>\<open>strconv.ParseInt\<close>, \<^verbatim>\<open>net/http.ParseTime\<close>); the others
  (\<^verbatim>\<open>net/url.Parse\<close>, \<^verbatim>\<open>time.Parse\<close>, the calls of the SDK client) are parameters of the
  functions that call them.
\<close>

subsection \<open>Errors\<close>

text \<open>
  The package builds its errors with \<^verbatim>\<open>fmt.Errorf\<close>, either from a constant message or
  wrapping a cause with \<^verbatim>\<open>%w\<close>; it returns SDK errors unchanged; and it returns the
  exported sentinel \<^verbatim>\<open>storage.ErrObjectNotFound\<close>. \<open>'e\<close> is the type of the errors of
  the SDK.
\<close>

datatype 'e error =
    ErrObjectNotFound
  | Errorf string
  | Wrapf string "'e error"
  | SdkError 'e
  | UrlError string

subsection \<open>Strings\<close>

definition HasPrefix :: "string \<Rightarrow> string \<Rightarrow> bool" where
  "HasPrefix s p = prefix p s"

definition HasSuffix :: "string \<Rightarrow> string \<Rightarrow> bool" where
  "HasSuffix s p = suffix p s"

subsection \<open>Endpoint resolution: buildBaseURL\<close>

text \<open>The fields of \<^verbatim>\<open>net/url.URL\<close>; \<open>User\<close> is \<open>None\<close> for a nil \<^verbatim>\<open>*Userinfo\<close>.\<close>

record url_URL =
  Scheme :: string
  Opaque :: string
  User :: "string option"
  Host :: string
  Path :: string
  RawPath :: string
  OmitHost :: bool
  ForceQuery :: bool
  RawQuery :: string
  Fragment :: string
  RawFragment :: string

text \<open>\<^verbatim>\<open>cosv5.BaseURL\<close>: buildBaseURL sets these two URLs and leaves the others nil.\<close>

record BaseURL =
  BucketURL :: url_URL
  ServiceURL :: url_URL

text \<open>
  \<open>url_Parse\<close> stands for \<^verbatim>\<open>net/url.Parse\<close>: \<open>Inl\<close> carries the message of its error.
\<close>

definition buildBaseURL ::
  "(string \<Rightarrow> string + url_URL) \<Rightarrow> string \<Rightarrow> string \<Rightarrow> string \<Rightarrow> 'e error + BaseURL" where
  "buildBaseURL url_Parse bucketName endpoint region =
     (if bucketName = [] then Inl (Errorf ''cos bucket name is empty'')
      else if endpoint = [] \<and> region = []
        then Inl (Errorf ''cos endpoint is empty and region is missing'')
      else
        let endpoint1 = (if endpoint = [] then ''https://cos.'' @ region @ ''.myqcloud.com''
                         else endpoint);
            endpoint2 = (if \<not> HasPrefix endpoint1 ''http://'' \<and> \<not> HasPrefix endpoint1 ''https://''
                         then ''https://'' @ endpoint1 else endpoint1)
        in case url_Parse endpoint2 of
             Inl err \<Rightarrow> Inl (Wrapf ''parse cos endpoint failed: '' (UrlError err))
           | Inr u \<Rightarrow>
               let serviceURL = u\<lparr>Path := [], RawQuery := [], Fragment := []\<rparr>;
                   bucketHost = (if \<not> HasPrefix (Host serviceURL) (bucketName @ ''.'')
                                 then bucketName @ ''.'' @ Host serviceURL
                                 else Host serviceURL)
               in Inr \<lparr>BucketURL = serviceURL\<lparr>Host := bucketHost\<rparr>, ServiceURL = serviceURL\<rparr>)"

text \<open>
  For closed examples: the value of \<^verbatim>\<open>net/url.Parse\<close> on the plain forms
  \<^verbatim>\<open>scheme://host\<close> and \<^verbatim>\<open>scheme://host/path\<close>, where the scheme is \<^verbatim>\<open>http\<close> or
  \<^verbatim>\<open>https\<close>, the host is made of letters, digits, \<^verbatim>\<open>-\<close> and \<^verbatim>\<open>.\<close> only, and the path
  of these and slashes (the endpoints of \<^verbatim>\<open>TestBuildBaseURL\<close> have this form). The
  authority ends at the first slash, and the path starts there. Every other input is
  outside this fragment and is reported as such.
\<close>

definition plain_char :: "char \<Rightarrow> bool" where
  "plain_char c =
     (c \<in> set ''abcdefghijklmnopqrstuvwxyzABCDEFGHIJKLMNOPQRSTUVWXYZ0123456789-./'')"

definition plain_URL :: "string \<Rightarrow> string \<Rightarrow> string \<Rightarrow> url_URL" where
  "plain_URL scheme host path =
     \<lparr>Scheme = scheme, Opaque = [], User = None, Host = host, Path = path, RawPath = [],
      OmitHost = False, ForceQuery = False, RawQuery = [], Fragment = [], RawFragment = []\<rparr>"

definition url_Parse_plain :: "string \<Rightarrow> string + url_URL" where
  "url_Parse_plain s =
     (if prefix ''https://'' s \<and> list_all plain_char (drop 8 s)
        then Inr (plain_URL ''https'' (takeWhile (\<lambda>c. c \<noteq> CHR ''/'') (drop 8 s))
                    (dropWhile (\<lambda>c. c \<noteq> CHR ''/'') (drop 8 s)))
      else if prefix ''http://'' s \<and> list_all plain_char (drop 7 s)
        then Inr (plain_URL ''http'' (takeWhile (\<lambda>c. c \<noteq> CHR ''/'') (drop 7 s))
                    (dropWhile (\<lambda>c. c \<noteq> CHR ''/'') (drop 7 s)))
      else Inl ''outside the modelled fragment'')"

subsection \<open>Time normalisation: parseCosTime\<close>

text \<open>
  A \<^verbatim>\<open>time.Time\<close> is modelled by its instant, in nanoseconds since the instant of the zero
  value \<^verbatim>\<open>time.Time{}\<close> (January 1, year 1, 00:00:00 UTC), so that \<^verbatim>\<open>IsZero\<close> is
  equality with \<open>Time_zero\<close>.
\<close>

type_synonym Time = int

definition Time_zero :: Time where
  "Time_zero = 0"

text \<open>The layouts of package \<^verbatim>\<open>time\<close> and of \<^verbatim>\<open>net/http\<close> that the code names.\<close>

definition RFC3339 :: string where
  "RFC3339 = ''2006-01-02T15:04:05Z07:00''"

definition RFC3339Nano :: string where
  "RFC3339Nano = ''2006-01-02T15:04:05.999999999Z07:00''"

definition TimeFormat :: string where
  "TimeFormat = ''Mon, 02 Jan 2006 15:04:05 GMT''"

definition RFC850 :: string where
  "RFC850 = ''Monday, 02-Jan-06 15:04:05 MST''"

definition ANSIC :: string where
  "ANSIC = ''Mon Jan _2 15:04:05 2006''"

text \<open>
  \<open>time_Parse layout value\<close> stands for \<^verbatim>\<open>time.Parse\<close>: \<open>Inl\<close> carries the message of its
  error, and the Go function returns \<^verbatim>\<open>time.Time{}\<close> beside an error.

  \<^verbatim>\<open>net/http.ParseTime\<close> tries its three formats in turn, assigning its named results
  \<^verbatim>\<open>(t, err)\<close> at each attempt and returning at the first success.
\<close>

definition timeFormats :: "string list" where
  "timeFormats = [TimeFormat, RFC850, ANSIC]"

fun http_ParseTime_loop ::
  "(string \<Rightarrow> string \<Rightarrow> string + Time) \<Rightarrow> string list \<Rightarrow> string \<Rightarrow>
   Time \<times> string option \<Rightarrow> Time \<times> string option" where
  "http_ParseTime_loop time_Parse [] text r = r"
| "http_ParseTime_loop time_Parse (layout # layouts) text r =
     (case time_Parse layout text of
        Inr t \<Rightarrow> (t, None)
      | Inl err \<Rightarrow> http_ParseTime_loop time_Parse layouts text (Time_zero, Some err))"

definition http_ParseTime ::
  "(string \<Rightarrow> string \<Rightarrow> string + Time) \<Rightarrow> string \<Rightarrow> Time \<times> string option" where
  "http_ParseTime time_Parse text =
     http_ParseTime_loop time_Parse timeFormats text (Time_zero, None)"

text \<open>The loop of parseCosTime over its own layouts: the first that parses returns.\<close>

fun parseCosTime_layouts ::
  "(string \<Rightarrow> string \<Rightarrow> string + Time) \<Rightarrow> string list \<Rightarrow> string \<Rightarrow> Time option" where
  "parseCosTime_layouts time_Parse [] v = None"
| "parseCosTime_layouts time_Parse (layout # layouts) v =
     (case time_Parse layout v of
        Inr t \<Rightarrow> Some t
      | Inl err \<Rightarrow> parseCosTime_layouts time_Parse layouts v)"

definition parseCosTime :: "(string \<Rightarrow> string \<Rightarrow> string + Time) \<Rightarrow> string \<Rightarrow> Time" where
  "parseCosTime time_Parse v =
     (if v = [] then Time_zero
      else
        case parseCosTime_layouts time_Parse
               [RFC3339, RFC3339Nano, ''2006-01-02T15:04:05.000Z''] v of
          Some t \<Rightarrow> t
        | None \<Rightarrow>
            (case http_ParseTime time_Parse v of
               (t, None) \<Rightarrow> t
             | (t, Some err) \<Rightarrow> Time_zero))"

text \<open>
  The layouts in the order in which parseCosTime tries them; the last three are the
  HTTP-date formats of \<^verbatim>\<open>net/http.ParseTime\<close>.
\<close>

definition tried_layouts :: "string list" where
  "tried_layouts =
     [RFC3339, RFC3339Nano, ''2006-01-02T15:04:05.000Z'', TimeFormat, RFC850, ANSIC]"

text \<open>
  For closed examples: the values of \<^verbatim>\<open>time.Parse\<close> on the HTTP date of
  \<^verbatim>\<open>TestParseCosTime\<close>, which only the layout \<^verbatim>\<open>http.TimeFormat\<close> of the six parses
  (October 2, 2002, 08:00:00 UTC), and on a string that none of them parses. Every other
  input is outside this table and is reported as such.
\<close>

definition time_Parse_table :: "string \<Rightarrow> string \<Rightarrow> string + Time" where
  "time_Parse_table layout v =
     (if v = ''Wed, 02 Oct 2002 08:00:00 GMT'' \<and> layout = TimeFormat
        then Inr 63169142400000000000
      else if (v = ''Wed, 02 Oct 2002 08:00:00 GMT'' \<or> v = ''not a time'') \<and>
              layout \<in> set tried_layouts
        then Inl ''cannot parse''
      else Inl ''outside the table'')"

subsection \<open>The types of package storage and of the COS SDK\<close>

text \<open>
  \<^verbatim>\<open>storage.FileInfo\<close>. \<open>Tagging\<close> is a Go map: \<open>None\<close> is the nil map. The Go code holds
  the listed files by pointer and fills \<open>Tagging\<close> and \<open>URL\<close> in place; the model returns
  the updated values.
\<close>

record FileInfo =
  Key :: string
  LastModified :: Time
  ETag :: string
  Size :: int
  URL :: string
  Tagging :: "(string \<rightharpoonup> string) option"

text \<open>A nil \<^verbatim>\<open>*ListObjectsPaginatedInput\<close> is \<open>None\<close>.\<close>

record ListObjectsPaginatedInput =
  Prefix :: string
  PageSize :: int
  Cursor :: string

record ListObjectsPaginatedOutput =
  Files :: "FileInfo list"
  Output_Cursor :: string
  IsTruncated :: bool

text \<open>
  The option structs of package storage, with the fields that cos.go reads; a nil pointer
  is \<open>None\<close>. An option function of Go updates the struct through a pointer: here it is a
  function from the struct to the updated struct, and a caller may pass any such function.
\<close>

record GetOption =
  Expire :: int
  WithURL :: bool
  WithTagging :: bool

record PutOption =
  ContentType :: "string option"
  ContentEncoding :: "string option"
  ContentDisposition :: "string option"
  ContentLanguage :: "string option"
  Expires :: "Time option"
  ObjectSize :: int
  PutOption_Tagging :: "string \<rightharpoonup> string"

type_synonym GetOptFn = "GetOption \<Rightarrow> GetOption"

type_synonym PutOptFn = "PutOption \<Rightarrow> PutOption"

text \<open>
  Modelled from the spec: \<^verbatim>\<open>storage.WithObjectSize\<close> is declared in package storage, not
  in package cos. The spec lists \<open>objectSize\<close> among the recognized put options, supplied
  "via option": the option function stores the given size in \<open>ObjectSize\<close>.
\<close>

definition WithObjectSize :: "int \<Rightarrow> PutOptFn" where
  "WithObjectSize v option = option\<lparr>ObjectSize := v\<rparr>"

text \<open>The parts of the SDK's request and response structs that cos.go writes and reads.\<close>

record cosv5_Object =
  Object_Key :: string
  Object_ETag :: string
  Object_Size :: int
  Object_LastModified :: string

record BucketGetOptions =
  Get_Prefix :: string
  Marker :: string
  MaxKeys :: int

record BucketGetResult =
  Contents :: "cosv5_Object list"
  Result_IsTruncated :: bool
  NextMarker :: string

record ObjectTaggingTag =
  Tag_Key :: string
  Tag_Value :: string

record ObjectPutOptions =
  Put_ContentType :: string
  Put_ContentEncoding :: string
  Put_ContentDisposition :: string
  Put_ContentLanguage :: string
  Put_Expires :: string
  ContentLength :: int
  XOptionHeader :: "(string \<rightharpoonup> string) option"

text \<open>
  The remote service behind the SDK client. \<open>'s\<close> is the state of the remote side (and of
  the network): every call takes the state and returns the next one with its result, so a
  remote may answer the same request differently each time. \<open>'e\<close> is the type of the SDK's
  errors, and \<open>IsNotFoundError\<close> is \<^verbatim>\<open>cosv5.IsNotFoundError\<close>. \<open>Object_Head\<close> returns the
  response header, \<open>Object_GetPresignedURL\<close> the presigned URL as a string; \<open>Object_Put\<close>
  takes the bytes that the reader yields.
\<close>

record ('s, 'e) cosv5_Client =
  Bucket_Get :: "BucketGetOptions \<Rightarrow> 's \<Rightarrow> ('e + BucketGetResult) \<times> 's"
  Object_Put :: "string \<Rightarrow> string \<Rightarrow> ObjectPutOptions \<Rightarrow> 's \<Rightarrow> 'e option \<times> 's"
  Object_Head :: "string \<Rightarrow> 's \<Rightarrow> ('e + (string \<rightharpoonup> string)) \<times> 's"
  Object_GetTagging :: "string \<Rightarrow> 's \<Rightarrow> ('e + ObjectTaggingTag list) \<times> 's"
  Object_GetPresignedURL ::
    "string \<Rightarrow> string \<Rightarrow> string \<Rightarrow> string \<Rightarrow> int \<Rightarrow> 's \<Rightarrow> ('e + string) \<times> 's"
  IsNotFoundError :: "'e \<Rightarrow> bool"

record ('s, 'e) cosClient =
  client :: "('s, 'e) cosv5_Client"
  bucketName :: string
  secretID :: string
  secretKey :: string

subsection \<open>Put\<close>

definition applyPutOpts :: "PutOptFn list \<Rightarrow> PutOption" where
  "applyPutOpts opts =
     fold (\<lambda>opt option. opt option) opts
       \<lparr>ContentType = None, ContentEncoding = None, ContentDisposition = None,
        ContentLanguage = None, Expires = None, ObjectSize = 0,
        PutOption_Tagging = Map.empty\<rparr>"

text \<open>
  The request options that PutObjectWithReader builds from the caller's options, before
  its call of \<^verbatim>\<open>Object.Put\<close>. \<open>Format_http\<close> stands for
  \<^verbatim>\<open>t.UTC().Format(http.TimeFormat)\<close> and \<open>MapToQuery\<close> for \<^verbatim>\<open>goutil.MapToQuery\<close>;
  \<^verbatim>\<open>http.Header.Set\<close> stores the tagging under the canonical form of the header name.
\<close>

definition putOption ::
  "(Time \<Rightarrow> string) \<Rightarrow> ((string \<rightharpoonup> string) \<Rightarrow> string) \<Rightarrow> PutOptFn list \<Rightarrow> ObjectPutOptions" where
  "putOption Format_http MapToQuery opts =
     (let option = applyPutOpts opts in
      \<lparr>Put_ContentType = (case ContentType option of None \<Rightarrow> [] | Some v \<Rightarrow> v),
       Put_ContentEncoding = (case ContentEncoding option of None \<Rightarrow> [] | Some v \<Rightarrow> v),
       Put_ContentDisposition = (case ContentDisposition option of None \<Rightarrow> [] | Some v \<Rightarrow> v),
       Put_ContentLanguage = (case ContentLanguage option of None \<Rightarrow> [] | Some v \<Rightarrow> v),
       Put_Expires = (case Expires option of None \<Rightarrow> [] | Some t \<Rightarrow> Format_http t),
       ContentLength = (if ObjectSize option > 0 then ObjectSize option else 0),
       XOptionHeader =
         (if PutOption_Tagging option \<noteq> Map.empty
          then Some [''X-Cos-Tagging'' \<mapsto> MapToQuery (PutOption_Tagging option)]
          else None)\<rparr>)"

definition PutObjectWithReader ::
  "(Time \<Rightarrow> string) \<Rightarrow> ((string \<rightharpoonup> string) \<Rightarrow> string) \<Rightarrow> ('s, 'e) cosClient \<Rightarrow>
   string \<Rightarrow> string \<Rightarrow> PutOptFn list \<Rightarrow> 's \<Rightarrow> 'e error option \<times> 's" where
  "PutObjectWithReader Format_http MapToQuery c objectKey content opts s =
     (case Object_Put (client c) objectKey content (putOption Format_http MapToQuery opts) s of
        (Some err, s1) \<Rightarrow> (Some (Wrapf ''put object failed: '' (SdkError err)), s1)
      | (None, s1) \<Rightarrow> (None, s1))"

definition PutObject ::
  "(Time \<Rightarrow> string) \<Rightarrow> ((string \<rightharpoonup> string) \<Rightarrow> string) \<Rightarrow> ('s, 'e) cosClient \<Rightarrow>
   string \<Rightarrow> string \<Rightarrow> PutOptFn list \<Rightarrow> 's \<Rightarrow> 'e error option \<times> 's" where
  "PutObject Format_http MapToQuery c objectKey content opts s =
     PutObjectWithReader Format_http MapToQuery c objectKey content
       (opts @ [WithObjectSize (int (length content))]) s"

subsection \<open>Presigned URLs and tags\<close>

definition applyGetOpts :: "GetOptFn list \<Rightarrow> GetOption" where
  "applyGetOpts opts =
     fold (\<lambda>optFn opt. optFn opt) opts \<lparr>Expire = 0, WithURL = False, WithTagging = False\<rparr>"

text \<open>The product of two \<^verbatim>\<open>int64\<close> values wraps around.\<close>

definition int64_wrap :: "int \<Rightarrow> int" where
  "int64_wrap x = (x + 2 ^ 63) mod 2 ^ 64 - 2 ^ 63"

definition GetObjectUrl ::
  "('s, 'e) cosClient \<Rightarrow> string \<Rightarrow> GetOptFn list \<Rightarrow> 's \<Rightarrow> ('e error + string) \<times> 's" where
  "GetObjectUrl c objectKey opts s =
     (let opt = applyGetOpts opts;
          expire = (if Expire opt > 0 then Expire opt else 7 * 24 * 60 * 60)
      in case Object_GetPresignedURL (client c) ''GET'' objectKey (secretID c) (secretKey c)
                (int64_wrap (expire * 1000000000)) s of
           (Inl err, s1) \<Rightarrow> (Inl (SdkError err), s1)
         | (Inr url, s1) \<Rightarrow> (Inr url, s1))"

fun cosTagsToMap_loop :: "ObjectTaggingTag list \<Rightarrow> (string \<rightharpoonup> string) \<Rightarrow> (string \<rightharpoonup> string)" where
  "cosTagsToMap_loop [] m = m"
| "cosTagsToMap_loop (tag # tags) m = cosTagsToMap_loop tags (m(Tag_Key tag \<mapsto> Tag_Value tag))"

definition cosTagsToMap :: "ObjectTaggingTag list \<Rightarrow> (string \<rightharpoonup> string) option" where
  "cosTagsToMap tags = (if tags = [] then None else Some (cosTagsToMap_loop tags Map.empty))"

subsection \<open>Head\<close>

text \<open>
  \<^verbatim>\<open>strings.Trim(s, cutset)\<close> removes the leading and the trailing characters of \<open>s\<close> that
  are in the cutset (the code's cutset is the double quote, one ASCII character).
\<close>

definition Trim :: "string \<Rightarrow> string \<Rightarrow> string" where
  "Trim s cutset =
     rev (dropWhile (\<lambda>c. c \<in> set cutset) (rev (dropWhile (\<lambda>c. c \<in> set cutset) s)))"

text \<open>\<^verbatim>\<open>http.Header.Get\<close>: the value of the header, the empty string when it is absent.\<close>

definition Header_Get :: "(string \<rightharpoonup> string) \<Rightarrow> string \<Rightarrow> string" where
  "Header_Get header k = (case header k of None \<Rightarrow> [] | Some v \<Rightarrow> v)"

text \<open>
  \<^verbatim>\<open>strconv.ParseInt(s, 10, 64)\<close>, after the source of package strconv. ParseUint scans
  the bytes from the left: a byte that is not a decimal digit ends the scan with a syntax
  error and the value 0, and a digit that would take the value past \<open>2 ^ 64 - 1\<close> ends it
  with a range error and the value \<open>2 ^ 64 - 1\<close>. ParseInt takes off one leading sign,
  returns 0 beside a syntax error, and beside a range error the largest \<^verbatim>\<open>int64\<close> of the
  sign (as its documentation says). The result is the pair of Go's two results.
\<close>

datatype NumError = ErrSyntax | ErrRange

definition decimal_digit :: "char \<Rightarrow> bool" where
  "decimal_digit c =
     (of_char (CHR ''0'') \<le> (of_char c :: nat) \<and> (of_char c :: nat) \<le> of_char (CHR ''9''))"

fun ParseUint_loop :: "string \<Rightarrow> nat \<Rightarrow> nat \<times> NumError option" where
  "ParseUint_loop [] n = (n, None)"
| "ParseUint_loop (c # cs) n =
     (if \<not> decimal_digit c then (0, Some ErrSyntax)
      else if n \<ge> (2 ^ 64 - 1) div 10 + 1 then (2 ^ 64 - 1, Some ErrRange)
      else
        let n1 = n * 10 + (of_char c - of_char (CHR ''0''))
        in if n1 > 2 ^ 64 - 1 then (2 ^ 64 - 1, Some ErrRange)
           else ParseUint_loop cs n1)"

definition strconv_ParseUint :: "string \<Rightarrow> nat \<times> NumError option" where
  "strconv_ParseUint s = (if s = [] then (0, Some ErrSyntax) else ParseUint_loop s 0)"

definition strconv_ParseInt :: "string \<Rightarrow> int \<times> NumError option" where
  "strconv_ParseInt s =
     (if s = [] then (0, Some ErrSyntax)
      else
        let neg = (hd s = CHR ''-'');
            s1 = (if hd s = CHR ''+'' \<or> hd s = CHR ''-'' then tl s else s);
            (un, err) = strconv_ParseUint s1
        in if err \<noteq> None \<and> err \<noteq> Some ErrRange then (0, err)
           else if \<not> neg \<and> un \<ge> 2 ^ 63 then (2 ^ 63 - 1, Some ErrRange)
           else if neg \<and> un > 2 ^ 63 then (- (2 ^ 63), Some ErrRange)
           else (if neg then - int un else int un, None))"

definition HeadObject ::
  "(string \<Rightarrow> string \<Rightarrow> string + Time) \<Rightarrow> ('s, 'e) cosClient \<Rightarrow> string \<Rightarrow> GetOptFn list \<Rightarrow> 's \<Rightarrow>
   ('e error + FileInfo) \<times> 's" where
  "HeadObject time_Parse c objectKey opts s =
     (case Object_Head (client c) objectKey s of
        (Inl err, s1) \<Rightarrow>
          (if IsNotFoundError (client c) err then (Inl ErrObjectNotFound, s1)
           else (Inl (SdkError err), s1))
      | (Inr header, s1) \<Rightarrow>
          (let size = fst (strconv_ParseInt (Header_Get header ''Content-Length''));
              lastModified = fst (http_ParseTime time_Parse (Header_Get header ''Last-Modified''));
              fileInfo =
                \<lparr>Key = objectKey, LastModified = lastModified,
                 ETag = Trim (Header_Get header ''ETag'') [CHR 0x22], Size = size,
                 URL = [], Tagging = None\<rparr>;
              opt = applyGetOpts opts
          in case (if WithTagging opt
                   then (case Object_GetTagging (client c) objectKey s1 of
                           (Inl err, s2) \<Rightarrow> (Inl (SdkError err), s2)
                         | (Inr tagging, s2) \<Rightarrow>
                             (Inr (fileInfo\<lparr>Tagging := cosTagsToMap tagging\<rparr>), s2))
                   else (Inr fileInfo, s1)) of
               (Inl err, s2) \<Rightarrow> (Inl err, s2)
             | (Inr fileInfo2, s2) \<Rightarrow>
                 (if WithURL opt
                  then (case GetObjectUrl c objectKey opts s2 of
                          (Inl err, s3) \<Rightarrow> (Inl err, s3)
                        | (Inr url, s3) \<Rightarrow> (Inr (fileInfo2\<lparr>URL := url\<rparr>), s3))
                  else (Inr fileInfo2, s2))))"

subsection \<open>Listing\<close>

text \<open>
  Modelled from the spec: the task group is declared in \<^verbatim>\<open>backend/pkg/taskgroup\<close>, not in
  package cos. The spec describes it as a bounded group: at most five tasks in
  flight, one task spawned per item, the first failure observed cancels the remaining work
  and is the error that \<^verbatim>\<open>Wait\<close> returns; each worker writes only the item it was given.
  The model runs the tasks one after another in the order in which they were spawned,
  which is one of the schedules that the group allows: a task returns its updated item,
  the first failure ends the run, and the updated items are returned only when every task
  has succeeded. Which failure is observed first under another schedule is not modelled.
\<close>

fun taskgroup_Wait ::
  "('a \<Rightarrow> 's \<Rightarrow> ('x + 'a) \<times> 's) \<Rightarrow> 'a list \<Rightarrow> 's \<Rightarrow> ('x + 'a list) \<times> 's" where
  "taskgroup_Wait task [] s = (Inr [], s)"
| "taskgroup_Wait task (f # fs) s =
     (case task f s of
        (Inl err, s1) \<Rightarrow> (Inl err, s1)
      | (Inr f', s1) \<Rightarrow>
          (case taskgroup_Wait task fs s1 of
             (Inl err, s2) \<Rightarrow> (Inl err, s2)
           | (Inr fs', s2) \<Rightarrow> (Inr (f' # fs'), s2)))"

text \<open>The task that ListObjectsPaginated spawns for a listed file.\<close>

definition tagging_task ::
  "('s, 'e) cosClient \<Rightarrow> FileInfo \<Rightarrow> 's \<Rightarrow> ('e error + FileInfo) \<times> 's" where
  "tagging_task c f s =
     (case Object_GetTagging (client c) (Key f) s of
        (Inl err, s1) \<Rightarrow> (Inl (SdkError err), s1)
      | (Inr tagging, s1) \<Rightarrow> (Inr (f\<lparr>Tagging := cosTagsToMap tagging\<rparr>), s1))"

text \<open>
  Modelled from the spec: \<^verbatim>\<open>fileutil.AssembleFileUrl\<close> is declared in
  \<^verbatim>\<open>impl/internal/fileutil\<close>, not in package cos. The spec: URL enrichment derives
  presigned URLs for every item, failing fast on the first error. It receives the expiry
  of the options and the client, whose GetObjectUrl signs each key.
\<close>

definition AssembleFileUrl ::
  "('s, 'e) cosClient \<Rightarrow> int \<Rightarrow> FileInfo list \<Rightarrow> 's \<Rightarrow> ('e error + FileInfo list) \<times> 's" where
  "AssembleFileUrl c urlExpire files s =
     taskgroup_Wait
       (\<lambda>f s0. case GetObjectUrl c (Key f) [\<lambda>opt. opt\<lparr>Expire := urlExpire\<rparr>] s0 of
                  (Inl err, s1) \<Rightarrow> (Inl err, s1)
                | (Inr url, s1) \<Rightarrow> (Inr (f\<lparr>URL := url\<rparr>), s1))
       files s"

text \<open>
  A pseudo-directory marker: an entry of size 0 whose key ends in a slash, as a listed
  object and as a file of the result.
\<close>

definition dir_marker :: "cosv5_Object \<Rightarrow> bool" where
  "dir_marker obj = (Object_Size obj = 0 \<and> HasSuffix (Object_Key obj) ''/'')"

definition dir_marker_file :: "FileInfo \<Rightarrow> bool" where
  "dir_marker_file f = (Size f = 0 \<and> HasSuffix (Key f) ''/'')"

text \<open>The loop of ListObjectsPaginated over the listed objects, skipping directory markers.\<close>

fun ListObjectsPaginated_files ::
  "(string \<Rightarrow> string \<Rightarrow> string + Time) \<Rightarrow> cosv5_Object list \<Rightarrow> FileInfo list" where
  "ListObjectsPaginated_files time_Parse [] = []"
| "ListObjectsPaginated_files time_Parse (obj # objs) =
     (if Object_Size obj = 0 \<and> HasSuffix (Object_Key obj) ''/''
      then ListObjectsPaginated_files time_Parse objs
      else \<lparr>Key = Object_Key obj,
            LastModified = parseCosTime time_Parse (Object_LastModified obj),
            ETag = Trim (Object_ETag obj) [CHR 0x22],
            Size = Object_Size obj, URL = [], Tagging = None\<rparr>
           # ListObjectsPaginated_files time_Parse objs)"

definition ListObjectsPaginated ::
  "(string \<Rightarrow> string \<Rightarrow> string + Time) \<Rightarrow> ('s, 'e) cosClient \<Rightarrow>
   ListObjectsPaginatedInput option \<Rightarrow> GetOptFn list \<Rightarrow> 's \<Rightarrow>
   ('e error + ListObjectsPaginatedOutput) \<times> 's" where
  "ListObjectsPaginated time_Parse c input opts s =
     (case input of
        None \<Rightarrow> (Inl (Errorf ''input cannot be nil''), s)
      | Some inp \<Rightarrow>
          (if PageSize inp \<le> 0 then (Inl (Errorf ''page size must be positive''), s)
           else
             case Bucket_Get (client c)
                    \<lparr>Get_Prefix = Prefix inp, Marker = Cursor inp, MaxKeys = PageSize inp\<rparr> s of
               (Inl err, s1) \<Rightarrow> (Inl (Wrapf ''list objects failed: '' (SdkError err)), s1)
             | (Inr result, s1) \<Rightarrow>
                 (let files = ListObjectsPaginated_files time_Parse (Contents result);
                      opt = applyGetOpts opts
                  in case (if WithTagging opt then taskgroup_Wait (tagging_task c) files s1
                           else (Inr files, s1)) of
                       (Inl err, s2) \<Rightarrow> (Inl err, s2)
                     | (Inr files2, s2) \<Rightarrow>
                         (case (if WithURL opt then AssembleFileUrl c (Expire opt) files2 s2
                                else (Inr files2, s2)) of
                            (Inl err, s3) \<Rightarrow> (Inl err, s3)
                          | (Inr files3, s3) \<Rightarrow>
                              (Inr \<lparr>Files = files3, Output_Cursor = NextMarker result,
                                    IsTruncated = Result_IsTruncated result\<rparr>, s3)))))"

text \<open>
  The loop of ListAllObjects, with the files accumulated so far and the cursor. A remote
  may keep it running forever: \<open>None\<close> is the loop that does not return.
\<close>

partial_function (option) ListAllObjects_loop ::
  "(string \<Rightarrow> string \<Rightarrow> string + Time) \<Rightarrow> ('s, 'e) cosClient \<Rightarrow> string \<Rightarrow> GetOptFn list \<Rightarrow>
   FileInfo list \<Rightarrow> string \<Rightarrow> 's \<Rightarrow> (('e error + FileInfo list) \<times> 's) option" where
  "ListAllObjects_loop time_Parse c pfx opts files cursor s =
     (case ListObjectsPaginated time_Parse c
             (Some \<lparr>Prefix = pfx, PageSize = 100, Cursor = cursor\<rparr>) opts s of
        (Inl err, s1) \<Rightarrow> Some (Inl err, s1)
      | (Inr output, s1) \<Rightarrow>
          (let files1 = files @ Files output in
           if length files1 \<ge> 10000 then Some (Inr files1, s1)
           else if \<not> IsTruncated output \<or> Output_Cursor output = [] then Some (Inr files1, s1)
           else ListAllObjects_loop time_Parse c pfx opts files1 (Output_Cursor output) s1))"

definition ListAllObjects ::
  "(string \<Rightarrow> string \<Rightarrow> string + Time) \<Rightarrow> ('s, 'e) cosClient \<Rightarrow> string \<Rightarrow> GetOptFn list \<Rightarrow> 's \<Rightarrow>
   (('e error + FileInfo list) \<times> 's) option" where
  "ListAllObjects time_Parse c pfx opts s = ListAllObjects_loop time_Parse c pfx opts [] [] s"

text \<open>
  The pages of a run of the loop, each with the state of the remote after it was fetched.
  \<open>drained\<close> holds of the pages of the run that starts with the accumulated files, the
  cursor and the state given: the first page is the one that ListObjectsPaginated returns
  for that cursor in that state; a page that is not the last leaves fewer than 10000 files
  accumulated and is truncated with a cursor, from which, in the state it left, the rest
  of the pages is drained; the last page meets one of the three conditions that end the
  loop.
\<close>

fun drained ::
  "(string \<Rightarrow> string \<Rightarrow> string + Time) \<Rightarrow> ('s, 'e) cosClient \<Rightarrow> string \<Rightarrow> GetOptFn list \<Rightarrow>
   FileInfo list \<Rightarrow> string \<Rightarrow> 's \<Rightarrow> (ListObjectsPaginatedOutput \<times> 's) list \<Rightarrow> bool" where
  "drained time_Parse c pfx opts files cursor s [] = False"
| "drained time_Parse c pfx opts files cursor s (page # pages) =
     (ListObjectsPaginated time_Parse c
        (Some \<lparr>Prefix = pfx, PageSize = 100, Cursor = cursor\<rparr>) opts s =
        (Inr (fst page), snd page) \<and>
      (if pages = []
       then 10000 \<le> length (files @ Files (fst page)) \<or> \<not> IsTruncated (fst page) \<or>
            Output_Cursor (fst page) = []
       else length (files @ Files (fst page)) < 10000 \<and> IsTruncated (fst page) \<and>
            Output_Cursor (fst page) \<noteq> [] \<and>
            drained time_Parse c pfx opts (files @ Files (fst page))
              (Output_Cursor (fst page)) (snd page) pages))"

text \<open>
  Two behaviours of a remote. It respects \<open>MaxKeys\<close> when no page that it returns holds
  more entries than the request allows. It yields files when every page that it returns
  to a request for at least one key as truncated, with a marker to continue from, holds
  at least one entry that is not a directory marker.
\<close>

definition respects_MaxKeys :: "('s, 'e) cosClient \<Rightarrow> bool" where
  "respects_MaxKeys c =
     (\<forall>opt s0 result s1.
        Bucket_Get (client c) opt s0 = (Inr result, s1) \<longrightarrow>
        length (Contents result) \<le> nat (MaxKeys opt))"

definition yields_files :: "('s, 'e) cosClient \<Rightarrow> bool" where
  "yields_files c =
     (\<forall>opt s0 result s1.
        0 < MaxKeys opt \<and> Bucket_Get (client c) opt s0 = (Inr result, s1) \<and>
        Result_IsTruncated result \<and> NextMarker result \<noteq> [] \<longrightarrow>
        (\<exists>obj\<in>set (Contents result). \<not> dir_marker obj))"

subsection \<open>A remote for closed examples\<close>

text \<open>
  A remote whose answers depend on the request only, given by three tables (listing, tags,
  head), and whose state is the log of the calls it has received. Its errors are HTTP
  status codes, 404 being the not-found condition; every put succeeds and every URL is
  signed.
\<close>

datatype call =
    GetCall BucketGetOptions
  | PutCall string string ObjectPutOptions
  | HeadCall string
  | TaggingCall string
  | PresignCall string int

definition logging_client ::
  "(BucketGetOptions \<Rightarrow> nat + BucketGetResult) \<Rightarrow> (string \<Rightarrow> nat + ObjectTaggingTag list) \<Rightarrow>
   (string \<Rightarrow> nat + (string \<rightharpoonup> string)) \<Rightarrow> (call list, nat) cosClient" where
  "logging_client listing tags head =
     \<lparr>client =
        \<lparr>Bucket_Get = (\<lambda>opt s. (listing opt, s @ [GetCall opt])),
         Object_Put = (\<lambda>k content po s. (None, s @ [PutCall k content po])),
         Object_Head = (\<lambda>k s. (head k, s @ [HeadCall k])),
         Object_GetTagging = (\<lambda>k s. (tags k, s @ [TaggingCall k])),
         Object_GetPresignedURL =
           (\<lambda>method k sid skey d s. (Inr (''https://signed.example/'' @ k), s @ [PresignCall k d])),
         IsNotFoundError = (\<lambda>e. e = 404)\<rparr>,
      bucketName = ''demo-bucket'', secretID = ''id'', secretKey = ''key''\<rparr>"

text \<open>
  The tables of the examples. \<open>demo_listing\<close> is the page of the spec's scenario: a folder
  placeholder and one file, not truncated. \<open>endless_listing\<close> always answers with the same
  full page of 99 files and one folder placeholder, truncated, with a marker to continue
  from; \<open>barren_listing\<close> always answers with an empty page, truncated, with a marker
  to continue from. \<open>paged_listing\<close> has two pages: a folder placeholder and a file,
  truncated, for the empty marker, and two files around a folder placeholder, not
  truncated, for any other marker. \<open>trio_listing\<close> is a page of three files. All return at most \<open>MaxKeys\<close> entries.
  \<open>demo_tags\<close> knows the tags of one key, \<^verbatim>\<open>a.txt\<close>, and fails for every other key;
  \<open>demo_file\<close> is the file listed for that key.
\<close>

definition demo_listing :: "BucketGetOptions \<Rightarrow> nat + BucketGetResult" where
  "demo_listing opt =
     Inr \<lparr>Contents = take (nat (MaxKeys opt))
            [\<lparr>Object_Key = ''folder/'', Object_ETag = [], Object_Size = 0,
              Object_LastModified = []\<rparr>,
             \<lparr>Object_Key = ''a.txt'', Object_ETag = [], Object_Size = 10,
              Object_LastModified = []\<rparr>],
          Result_IsTruncated = False, NextMarker = []\<rparr>"

definition endless_listing :: "BucketGetOptions \<Rightarrow> nat + BucketGetResult" where
  "endless_listing opt =
     Inr \<lparr>Contents = take (nat (MaxKeys opt))
            (replicate 99 \<lparr>Object_Key = ''a.txt'', Object_ETag = [], Object_Size = 10,
                            Object_LastModified = []\<rparr> @
             [\<lparr>Object_Key = ''folder/'', Object_ETag = [], Object_Size = 0,
               Object_LastModified = []\<rparr>]),
          Result_IsTruncated = True, NextMarker = ''m''\<rparr>"


definition barren_listing :: "BucketGetOptions \<Rightarrow> nat + BucketGetResult" where
  "barren_listing opt =
     Inr \<lparr>Contents = [], Result_IsTruncated = True, NextMarker = ''m''\<rparr>"

definition paged_listing :: "BucketGetOptions \<Rightarrow> nat + BucketGetResult" where
  "paged_listing opt =
     (if Marker opt = []
      then Inr \<lparr>Contents = take (nat (MaxKeys opt))
                   [\<lparr>Object_Key = ''folder/'', Object_ETag = [], Object_Size = 0,
                     Object_LastModified = []\<rparr>,
                    \<lparr>Object_Key = ''a.txt'', Object_ETag = [], Object_Size = 10,
                     Object_LastModified = []\<rparr>],
                Result_IsTruncated = True, NextMarker = ''a.txt''\<rparr>
      else Inr \<lparr>Contents = take (nat (MaxKeys opt))
                   [\<lparr>Object_Key = ''b.txt'', Object_ETag = [], Object_Size = 20,
                     Object_LastModified = []\<rparr>,
                    \<lparr>Object_Key = ''sub/'', Object_ETag = [], Object_Size = 0,
                     Object_LastModified = []\<rparr>,
                    \<lparr>Object_Key = ''c.txt'', Object_ETag = [], Object_Size = 30,
                     Object_LastModified = []\<rparr>],
                Result_IsTruncated = False, NextMarker = []\<rparr>)"

definition demo_file :: FileInfo where
  "demo_file =
     \<lparr>Key = ''a.txt'', LastModified = Time_zero, ETag = [], Size = 10, URL = [],
      Tagging = None\<rparr>"

definition demo_tags :: "string \<Rightarrow> nat + ObjectTaggingTag list" where
  "demo_tags k =
     (if k = ''a.txt'' then Inr [\<lparr>Tag_Key = ''k1'', Tag_Value = ''v1''\<rparr>] else Inl 500)"

subsection \<open>Properties of buildBaseURL\<close>

lemma buildBaseURL_empty_bucket:
  "buildBaseURL url_Parse [] endpoint region = Inl (Errorf ''cos bucket name is empty'')"
  by (simp add: buildBaseURL_def)

lemma buildBaseURL_nothing_to_resolve:
  "bucket \<noteq> [] \<Longrightarrow>
   buildBaseURL url_Parse bucket [] [] =
     Inl (Errorf ''cos endpoint is empty and region is missing'')"
  by (simp add: buildBaseURL_def)



lemma buildBaseURL_region:
  assumes "bucket \<noteq> []" and "region \<noteq> []"
    and "url_Parse (''https://cos.'' @ region @ ''.myqcloud.com'') = Inr u"
    and "Scheme u = ''https''" and "Host u = ''cos.'' @ region @ ''.myqcloud.com''"
  shows "\<exists>b. buildBaseURL url_Parse bucket [] region = Inr b \<and>
           Host (ServiceURL b) = ''cos.'' @ region @ ''.myqcloud.com'' \<and>
           Scheme (ServiceURL b) = ''https'' \<and>
           Host (BucketURL b) =
             (if HasPrefix (''cos.'' @ region @ ''.myqcloud.com'') (bucket @ ''.'')
              then ''cos.'' @ region @ ''.myqcloud.com''
              else bucket @ ''.cos.'' @ region @ ''.myqcloud.com'')"
  using assms by (simp add: buildBaseURL_def Let_def HasPrefix_def)



text \<open>
  C7 (amended). For a non-empty bucket name and a non-empty region such that
  \<^verbatim>\<open>net/url.Parse\<close> reads \<^verbatim>\<open>https://cos.<region>.myqcloud.com\<close> as scheme https and host
  \<^verbatim>\<open>cos.<region>.myqcloud.com\<close> (a region with a slash is not read so: the host ends at the
  slash), resolving with an empty endpoint succeeds with that service host and scheme; the bucket host is \<^verbatim>\<open><bucket>.cos.<region>.myqcloud.com\<close>, except when
  the service host already starts with \<^verbatim>\<open><bucket>.\<close> (a bucket named \<^verbatim>\<open>cos\<close>, for
  instance), where it is the service host itself. Resolving fails when the bucket name is
  empty, and when both endpoint and region are empty.
\<close>

theorem buildBaseURL_region_default:
  assumes "bucket \<noteq> []" and "region \<noteq> []"
    and "url_Parse (''https://cos.'' @ region @ ''.myqcloud.com'') = Inr u"
    and "Scheme u = ''https''" and "Host u = ''cos.'' @ region @ ''.myqcloud.com''"
  shows "(\<exists>b. (buildBaseURL url_Parse bucket [] region :: 'e error + BaseURL) = Inr b \<and>
            Host (ServiceURL b) = ''cos.'' @ region @ ''.myqcloud.com'' \<and>
            Scheme (ServiceURL b) = ''https'' \<and>
            Host (BucketURL b) =
              (if HasPrefix (''cos.'' @ region @ ''.myqcloud.com'') (bucket @ ''.'')
               then ''cos.'' @ region @ ''.myqcloud.com''
               else bucket @ ''.cos.'' @ region @ ''.myqcloud.com'')) \<and>
         (buildBaseURL url_Parse [] endpoint region' :: 'e error + BaseURL) =
            Inl (Errorf ''cos bucket name is empty'') \<and>
         (buildBaseURL url_Parse bucket [] [] :: 'e error + BaseURL) =
            Inl (Errorf ''cos endpoint is empty and region is missing'')"
proof -
  note buildBaseURL_region [where url_Parse = url_Parse and u = u, OF assms]
  moreover note buildBaseURL_empty_bucket [of url_Parse endpoint region']
  moreover note buildBaseURL_nothing_to_resolve [OF assms(1), of url_Parse]
  ultimately show ?thesis by simp
qed

theorem buildBaseURL_region_default_witness:
  "(buildBaseURL url_Parse_plain ''demo-bucket'' [] ''ap-shanghai'' :: unit error + BaseURL) =
     Inr \<lparr>BucketURL = plain_URL ''https'' ''demo-bucket.cos.ap-shanghai.myqcloud.com'' [],
          ServiceURL = plain_URL ''https'' ''cos.ap-shanghai.myqcloud.com'' []\<rparr> \<and>
   (buildBaseURL url_Parse_plain [] ''cos.ap-shanghai.myqcloud.com'' ''ap-shanghai''
      :: unit error + BaseURL) = Inl (Errorf ''cos bucket name is empty'') \<and>
   (buildBaseURL url_Parse_plain ''demo-bucket'' [] [] :: unit error + BaseURL) =
     Inl (Errorf ''cos endpoint is empty and region is missing'')"
proof -
  have p: "url_Parse_plain (''https://cos.'' @ ''ap-shanghai'' @ ''.myqcloud.com'') =
             Inr (plain_URL ''https'' ''cos.ap-shanghai.myqcloud.com'' [])"
    by (simp add: url_Parse_plain_def plain_char_def)
  have "(\<exists>b. (buildBaseURL url_Parse_plain ''demo-bucket'' [] ''ap-shanghai''
                 :: unit error + BaseURL) = Inr b \<and>
            Host (ServiceURL b) = ''cos.'' @ ''ap-shanghai'' @ ''.myqcloud.com'' \<and>
            Scheme (ServiceURL b) = ''https'' \<and>
            Host (BucketURL b) =
              (if HasPrefix (''cos.'' @ ''ap-shanghai'' @ ''.myqcloud.com'') (''demo-bucket'' @ ''.'')
               then ''cos.'' @ ''ap-shanghai'' @ ''.myqcloud.com''
               else ''demo-bucket'' @ ''.cos.'' @ ''ap-shanghai'' @ ''.myqcloud.com'')) \<and>
         (buildBaseURL url_Parse_plain [] ''cos.ap-shanghai.myqcloud.com'' ''ap-shanghai''
            :: unit error + BaseURL) = Inl (Errorf ''cos bucket name is empty'') \<and>
         (buildBaseURL url_Parse_plain ''demo-bucket'' [] [] :: unit error + BaseURL) =
            Inl (Errorf ''cos endpoint is empty and region is missing'')"
    by (rule buildBaseURL_region_default
          [where url_Parse = url_Parse_plain
             and u = "plain_URL ''https'' ''cos.ap-shanghai.myqcloud.com'' []", OF _ _ p])
       (simp_all add: plain_URL_def)
  moreover have "(buildBaseURL url_Parse_plain ''demo-bucket'' [] ''ap-shanghai''
        :: unit error + BaseURL) =
     Inr \<lparr>BucketURL = plain_URL ''https'' ''demo-bucket.cos.ap-shanghai.myqcloud.com'' [],
          ServiceURL = plain_URL ''https'' ''cos.ap-shanghai.myqcloud.com'' []\<rparr>"
    by (simp add: buildBaseURL_def url_Parse_plain_def plain_URL_def HasPrefix_def
        plain_char_def Let_def)
  ultimately show ?thesis by blast
qed

theorem buildBaseURL_region_default_counterexample:
  "(buildBaseURL url_Parse_plain ''cos'' [] ''ap-beijing'' :: unit error + BaseURL) =
     Inr \<lparr>BucketURL = plain_URL ''https'' ''cos.ap-beijing.myqcloud.com'' [],
          ServiceURL = plain_URL ''https'' ''cos.ap-beijing.myqcloud.com'' []\<rparr> \<and>
   Host (plain_URL ''https'' ''cos.ap-beijing.myqcloud.com'' []) \<noteq>
     ''cos'' @ ''.cos.'' @ ''ap-beijing'' @ ''.myqcloud.com'' \<and>
   (buildBaseURL url_Parse_plain ''demo-bucket'' [] ''a/b'' :: unit error + BaseURL) =
     Inr \<lparr>BucketURL = plain_URL ''https'' ''demo-bucket.cos.a'' [],
          ServiceURL = plain_URL ''https'' ''cos.a'' []\<rparr> \<and>
   Host (plain_URL ''https'' ''cos.a'' []) \<noteq> ''cos.'' @ ''a/b'' @ ''.myqcloud.com''"
  by (simp add: buildBaseURL_def url_Parse_plain_def plain_URL_def HasPrefix_def
      plain_char_def Let_def)

subsection \<open>Properties of parseCosTime\<close>

lemma parseCosTime_layouts_append:
  "parseCosTime_layouts tp (xs @ ys) v =
     (case parseCosTime_layouts tp xs v of
        Some t \<Rightarrow> Some t
      | None \<Rightarrow> parseCosTime_layouts tp ys v)"
  by (induction xs) (auto split: sum.splits)

lemma http_ParseTime_loop_found:
  "parseCosTime_layouts tp ls v = Some t \<Longrightarrow> http_ParseTime_loop tp ls v r = (t, None)"
  by (induction ls arbitrary: r) (auto split: sum.splits)

lemma http_ParseTime_loop_failed:
  "parseCosTime_layouts tp ls v = None \<Longrightarrow> ls \<noteq> [] \<Longrightarrow>
   \<exists>e. http_ParseTime_loop tp ls v r = (Time_zero, Some e)"
proof (induction ls arbitrary: r)
  case Nil
  then show ?case by simp
next
  case (Cons l ls)
  then show ?case by (cases ls) (auto split: sum.splits)
qed

lemma parseCosTime_unfolded:
  "parseCosTime tp v =
     (if v = [] then Time_zero
      else case parseCosTime_layouts tp tried_layouts v of Some t \<Rightarrow> t | None \<Rightarrow> Time_zero)"
proof -
  have split: "tried_layouts = [RFC3339, RFC3339Nano, ''2006-01-02T15:04:05.000Z''] @ timeFormats"
    by (simp add: tried_layouts_def timeFormats_def)
  show ?thesis
  proof (cases "parseCosTime_layouts tp timeFormats v")
    case None
    then obtain e where "http_ParseTime tp v = (Time_zero, Some e)"
      using http_ParseTime_loop_failed [of tp timeFormats v "(Time_zero, None)"]
      by (auto simp: http_ParseTime_def timeFormats_def)
    with None show ?thesis
      unfolding parseCosTime_def split parseCosTime_layouts_append
      by (simp split: option.splits)
  next
    case (Some t)
    then have "http_ParseTime tp v = (t, None)"
      by (simp add: http_ParseTime_def http_ParseTime_loop_found)
    with Some show ?thesis
      unfolding parseCosTime_def split parseCosTime_layouts_append
      by (simp split: option.splits)
  qed
qed

lemma parseCosTime_layouts_first:
  "(\<forall>k\<in>set pre. isl (tp k v)) \<Longrightarrow> tp l v = Inr t \<Longrightarrow>
   parseCosTime_layouts tp (pre @ l # post) v = Some t"
  by (induction pre) (auto split: sum.splits)

lemma parseCosTime_layouts_none:
  "(\<forall>k\<in>set ls. isl (tp k v)) \<Longrightarrow> parseCosTime_layouts tp ls v = None"
  by (induction ls) (auto split: sum.splits)

text \<open>
  C9. parseCosTime is a total function into timestamps: it has no error result. The empty
  string yields the zero timestamp. For any other string the layouts RFC3339, RFC3339Nano,
  \<^verbatim>\<open>2006-01-02T15:04:05.000Z\<close> and then the HTTP-date formats of \<^verbatim>\<open>net/http.ParseTime\<close>
  are tried in this order: the result is the time parsed by the first layout that parses
  the string, and the zero timestamp if none does.
\<close>

theorem parseCosTime_first_layout_wins:
  "parseCosTime tp [] = Time_zero \<and>
   (v \<noteq> [] \<and> tried_layouts = pre @ l # post \<and> (\<forall>k\<in>set pre. isl (tp k v)) \<and>
    tp l v = Inr t \<longrightarrow> parseCosTime tp v = t) \<and>
   (v \<noteq> [] \<and> (\<forall>k\<in>set tried_layouts. isl (tp k v)) \<longrightarrow> parseCosTime tp v = Time_zero)"
proof (intro conjI impI)
  show "parseCosTime tp [] = Time_zero"
    by (simp add: parseCosTime_def)
next
  assume h: "v \<noteq> [] \<and> tried_layouts = pre @ l # post \<and> (\<forall>k\<in>set pre. isl (tp k v)) \<and>
    tp l v = Inr t"
  then have "parseCosTime_layouts tp tried_layouts v = Some t"
    using parseCosTime_layouts_first [of pre tp v l t post] by simp
  with h show "parseCosTime tp v = t"
    by (simp add: parseCosTime_unfolded)
next
  assume h: "v \<noteq> [] \<and> (\<forall>k\<in>set tried_layouts. isl (tp k v))"
  then have "parseCosTime_layouts tp tried_layouts v = None"
    by (simp add: parseCosTime_layouts_none)
  with h show "parseCosTime tp v = Time_zero"
    by (simp add: parseCosTime_unfolded)
qed

theorem parseCosTime_first_layout_wins_witness:
  "parseCosTime time_Parse_table [] = Time_zero \<and>
   parseCosTime time_Parse_table ''Wed, 02 Oct 2002 08:00:00 GMT'' = 63169142400000000000 \<and>
   parseCosTime time_Parse_table ''not a time'' = Time_zero"
proof -
  have layouts: "tried_layouts =
      [RFC3339, RFC3339Nano, ''2006-01-02T15:04:05.000Z''] @ TimeFormat # [RFC850, ANSIC]"
    by (simp add: tried_layouts_def)
  have pre: "\<forall>k\<in>set [RFC3339, RFC3339Nano, ''2006-01-02T15:04:05.000Z''].
               isl (time_Parse_table k ''Wed, 02 Oct 2002 08:00:00 GMT'')"
    by (simp add: time_Parse_table_def tried_layouts_def RFC3339_def RFC3339Nano_def
        TimeFormat_def)
  have hit: "time_Parse_table TimeFormat ''Wed, 02 Oct 2002 08:00:00 GMT'' =
               Inr 63169142400000000000"
    by (simp add: time_Parse_table_def)
  have none: "\<forall>k\<in>set tried_layouts. isl (time_Parse_table k ''not a time'')"
    by (simp add: time_Parse_table_def)
  from parseCosTime_first_layout_wins
         [of time_Parse_table "''Wed, 02 Oct 2002 08:00:00 GMT''"
             "[RFC3339, RFC3339Nano, ''2006-01-02T15:04:05.000Z'']" TimeFormat
             "[RFC850, ANSIC]" 63169142400000000000]
       layouts pre hit
  have a: "parseCosTime time_Parse_table [] = Time_zero \<and>
           parseCosTime time_Parse_table ''Wed, 02 Oct 2002 08:00:00 GMT'' =
             63169142400000000000"
    by simp
  from parseCosTime_first_layout_wins [of time_Parse_table "''not a time''"] none
  have "parseCosTime time_Parse_table ''not a time'' = Time_zero"
    by simp
  with a show ?thesis by simp
qed

subsection \<open>Properties of PutObject\<close>

lemma applyPutOpts_append:
  "applyPutOpts (opts @ [opt]) = opt (applyPutOpts opts)"
  by (simp add: applyPutOpts_def)

lemma ObjectSize_last_WithObjectSize:
  "ObjectSize (applyPutOpts (opts @ [WithObjectSize n])) = n"
  by (simp add: applyPutOpts_append WithObjectSize_def)

lemma ContentLength_putOption:
  "ContentLength (putOption Format_http MapToQuery opts) =
     (if ObjectSize (applyPutOpts opts) > 0 then ObjectSize (applyPutOpts opts) else 0)"
  by (simp add: putOption_def Let_def)

text \<open>
  C2 (amended). PutObject always sends the length of the payload as the content length,
  whatever object size the caller's options supply: it appends its own
  \<^verbatim>\<open>WithObjectSize(len(content))\<close> after them. PutObjectWithReader sends the object size
  that the caller's options leave when it is positive, in particular the size of a last
  \<^verbatim>\<open>WithObjectSize\<close>, and sends no content length (zero) otherwise.
\<close>

theorem PutObject_sends_payload_length:
  "PutObject Format_http MapToQuery c objectKey content opts s =
     (case Object_Put (client c) objectKey content
             (putOption Format_http MapToQuery (opts @ [WithObjectSize (int (length content))])) s of
        (Some err, s1) \<Rightarrow> (Some (Wrapf ''put object failed: '' (SdkError err)), s1)
      | (None, s1) \<Rightarrow> (None, s1)) \<and>
   ContentLength
     (putOption Format_http MapToQuery (opts @ [WithObjectSize (int (length content))])) =
     int (length content) \<and>
   PutObjectWithReader Format_http MapToQuery c objectKey content opts s =
     (case Object_Put (client c) objectKey content (putOption Format_http MapToQuery opts) s of
        (Some err, s1) \<Rightarrow> (Some (Wrapf ''put object failed: '' (SdkError err)), s1)
      | (None, s1) \<Rightarrow> (None, s1)) \<and>
   ContentLength (putOption Format_http MapToQuery opts) =
     (if ObjectSize (applyPutOpts opts) > 0 then ObjectSize (applyPutOpts opts) else 0) \<and>
   ContentLength (putOption Format_http MapToQuery (opts @ [WithObjectSize n])) =
     (if n > 0 then n else 0)"
  by (simp add: PutObject_def PutObjectWithReader_def ContentLength_putOption
      ObjectSize_last_WithObjectSize)

theorem PutObject_sends_payload_length_witness:
  "ContentLength (putOption (\<lambda>t. []) (\<lambda>m. []) ([WithObjectSize 5] @ [WithObjectSize (int (length ''abc''))])) = 3 \<and>
   ContentLength (putOption (\<lambda>t. []) (\<lambda>m. []) ([] @ [WithObjectSize 5])) = 5"
  using PutObject_sends_payload_length
          [of "\<lambda>t. []" "\<lambda>m. []" "logging_client (\<lambda>opt. Inl 500) (\<lambda>k. Inl 500) (\<lambda>k. Inl 500)"
              "''k''" "''abc''" "[WithObjectSize 5]" "[]" 5]
        PutObject_sends_payload_length
          [of "\<lambda>t. []" "\<lambda>m. []" "logging_client (\<lambda>opt. Inl 500) (\<lambda>k. Inl 500) (\<lambda>k. Inl 500)"
              "''k''" "''abc''" "[]" "[]" 5]
  by simp

theorem PutObject_sends_payload_length_counterexample:
  "PutObject (\<lambda>t. []) (\<lambda>m. []) (logging_client (\<lambda>opt. Inl 500) (\<lambda>k. Inl 500) (\<lambda>k. Inl 500))
     ''k'' ''abc'' [WithObjectSize 5] [] =
   (None,
    [PutCall ''k'' ''abc''
       \<lparr>Put_ContentType = [], Put_ContentEncoding = [], Put_ContentDisposition = [],
        Put_ContentLanguage = [], Put_Expires = [], ContentLength = 3,
        XOptionHeader = None\<rparr>])"
  by (simp add: PutObject_def PutObjectWithReader_def putOption_def applyPutOpts_def
      WithObjectSize_def logging_client_def)

subsection \<open>Properties of HeadObject\<close>

text \<open>
  C6. When the remote head call fails with an error that the SDK classifies as not found,
  HeadObject returns the sentinel ErrObjectNotFound and no FileInfo; any other failure of
  the head call is returned as the SDK's own error, which is not the sentinel.
\<close>

theorem HeadObject_not_found_sentinel:
  assumes "Object_Head (client c) objectKey s = (Inl err, s1)"
  shows "HeadObject time_Parse c objectKey opts s =
           (if IsNotFoundError (client c) err then (Inl ErrObjectNotFound, s1)
            else (Inl (SdkError err), s1)) \<and>
         SdkError err \<noteq> (ErrObjectNotFound :: 'e error)"
  using assms by (simp add: HeadObject_def)

theorem HeadObject_not_found_sentinel_witness:
  "HeadObject time_Parse_table
     (logging_client (\<lambda>opt. Inl 500) (\<lambda>k. Inl 500) (\<lambda>k. if k = ''missing'' then Inl 404 else Inl 500))
     ''missing'' [] [] = (Inl ErrObjectNotFound, [HeadCall ''missing'']) \<and>
   HeadObject time_Parse_table
     (logging_client (\<lambda>opt. Inl 500) (\<lambda>k. Inl 500) (\<lambda>k. if k = ''missing'' then Inl 404 else Inl 500))
     ''broken'' [] [] = (Inl (SdkError 500), [HeadCall ''broken''])"
  using HeadObject_not_found_sentinel
          [of "logging_client (\<lambda>opt. Inl 500) (\<lambda>k. Inl 500)
                 (\<lambda>k. if k = ''missing'' then Inl 404 else Inl 500)"
              "''missing''" "[]" 404 "[HeadCall ''missing'']" time_Parse_table "[]"]
        HeadObject_not_found_sentinel
          [of "logging_client (\<lambda>opt. Inl 500) (\<lambda>k. Inl 500)
                 (\<lambda>k. if k = ''missing'' then Inl 404 else Inl 500)"
              "''broken''" "[]" 500 "[HeadCall ''broken'']" time_Parse_table "[]"]
  by (simp add: logging_client_def)

lemma strconv_ParseInt_syntax:
  "snd (strconv_ParseInt v) = Some ErrSyntax \<Longrightarrow> fst (strconv_ParseInt v) = 0"
  by (auto simp: strconv_ParseInt_def Let_def split: if_splits prod.splits)

lemma strconv_ParseInt_range:
  "snd (strconv_ParseInt v) = Some ErrRange \<Longrightarrow>
   fst (strconv_ParseInt v) = 2 ^ 63 - 1 \<or> fst (strconv_ParseInt v) = - (2 ^ 63)"
  by (auto simp: strconv_ParseInt_def Let_def split: if_splits prod.splits)

lemma strconv_ParseInt_empty:
  "strconv_ParseInt [] = (0, Some ErrSyntax)"
  by (simp add: strconv_ParseInt_def)

lemma http_ParseTime_none:
  assumes "\<forall>layout\<in>set timeFormats. isl (time_Parse layout v)"
  shows "fst (http_ParseTime time_Parse v) = Time_zero"
proof -
  have "parseCosTime_layouts time_Parse timeFormats v = None"
    using assms by (rule parseCosTime_layouts_none)
  then obtain e where "http_ParseTime time_Parse v = (Time_zero, Some e)"
    using http_ParseTime_loop_failed [of time_Parse timeFormats v "(Time_zero, None)"]
    by (auto simp: http_ParseTime_def timeFormats_def)
  then show ?thesis by simp
qed

lemma HeadObject_result:
  assumes "Object_Head (client c) objectKey s = (Inr header, s1)"
  shows "(\<exists>fi s2. HeadObject time_Parse c objectKey opts s = (Inr fi, s2) \<and>
            Key fi = objectKey \<and>
            Size fi = fst (strconv_ParseInt (Header_Get header ''Content-Length'')) \<and>
            LastModified fi = fst (http_ParseTime time_Parse (Header_Get header ''Last-Modified''))) \<or>
         (\<exists>err s2. HeadObject time_Parse c objectKey opts s = (Inl (SdkError err), s2) \<and>
            (WithTagging (applyGetOpts opts) \<or> WithURL (applyGetOpts opts)))"
  using assms
  by (auto simp: HeadObject_def Let_def GetObjectUrl_def split: prod.splits sum.splits)

lemma ParseUint_loop_non_digit:
  "\<forall>d\<in>set ds. decimal_digit d \<Longrightarrow> \<not> decimal_digit x \<Longrightarrow> n < 10 ^ j \<Longrightarrow>
   j + length ds \<le> 19 \<Longrightarrow> ParseUint_loop (ds @ x # rest) n = (0, Some ErrSyntax)"
proof (induction ds arbitrary: n j)
  case Nil
  then show ?case by simp
next
  case (Cons d ds)
  from Cons.prems have j: "j \<le> 18" by simp
  have "(10::nat) ^ j \<le> 10 ^ 18"
    using j by (intro power_increasing) simp_all
  with Cons.prems have n: "n < 10 ^ 18" by simp
  from Cons.prems have d: "decimal_digit d" by simp
  then have dv: "(of_char d :: nat) - of_char (CHR ''0'') \<le> 9"
    unfolding decimal_digit_def by simp arith
  have next_bound: "n * 10 + (of_char d - of_char (CHR ''0'')) < 10 ^ Suc j"
    using Cons.prems(3) dv by simp
  have "(10::nat) ^ Suc j \<le> 10 ^ 19"
    using j by (intro power_increasing) simp_all
  with next_bound have small: "n * 10 + (of_char d - of_char (CHR ''0'')) < 10 ^ 19"
    by simp
  have "ParseUint_loop ((d # ds) @ x # rest) n =
          ParseUint_loop (ds @ x # rest) (n * 10 + (of_char d - of_char (CHR ''0'')))"
    using d n small by (simp add: Let_def)
  also have "\<dots> = (0, Some ErrSyntax)"
    using Cons.prems next_bound by (intro Cons.IH [where j = "Suc j"]) simp_all
  finally show ?case .
qed

lemma strconv_ParseInt_non_digit:
  assumes "\<forall>d\<in>set ds. decimal_digit d" and "\<not> decimal_digit x" and "length ds \<le> 19"
    and "ds = [] \<longrightarrow> x \<noteq> CHR ''+'' \<and> x \<noteq> CHR ''-''"
  shows "strconv_ParseInt (ds @ x # rest) = (0, Some ErrSyntax)"
proof -
  have hd: "hd (ds @ x # rest) \<noteq> CHR ''+'' \<and> hd (ds @ x # rest) \<noteq> CHR ''-''"
    using assms by (cases ds) (auto simp: decimal_digit_def)
  have "ParseUint_loop (ds @ x # rest) 0 = (0, Some ErrSyntax)"
    using assms by (intro ParseUint_loop_non_digit [where j = 0]) simp_all
  with hd show ?thesis
    by (simp add: strconv_ParseInt_def strconv_ParseUint_def)
qed

text \<open>
  C10 (amended). When the remote head call succeeds, HeadObject never fails because of the
  response headers: it fails only if tags or a URL were requested, with the error of that
  call. The parse errors are discarded. An absent Content-Length, or one that
  \<^verbatim>\<open>strconv.ParseInt\<close> rejects with a syntax error (for instance a value with a byte that is
  not a digit after at most 19 digits), yields Size 0; one that it rejects as out of range
  yields the largest or the smallest \<^verbatim>\<open>int64\<close>. A Last-Modified that none of the HTTP-date
  formats parses (the empty string standing for an absent header) yields the zero
  timestamp.
\<close>

theorem HeadObject_header_parse_errors_discarded:
  assumes "Object_Head (client c) objectKey s = (Inr header, s1)"
  shows "(\<exists>fi s2. HeadObject time_Parse c objectKey opts s = (Inr fi, s2) \<and>
            Key fi = objectKey \<and>
            (header ''Content-Length'' = None \<longrightarrow> Size fi = 0) \<and>
            (snd (strconv_ParseInt (Header_Get header ''Content-Length'')) = Some ErrSyntax \<longrightarrow>
               Size fi = 0) \<and>
            (\<forall>ds x rest.
               Header_Get header ''Content-Length'' = ds @ x # rest \<and>
               (\<forall>d\<in>set ds. decimal_digit d) \<and> \<not> decimal_digit x \<and> length ds \<le> 19 \<and>
               (ds = [] \<longrightarrow> x \<noteq> CHR ''+'' \<and> x \<noteq> CHR ''-'') \<longrightarrow> Size fi = 0) \<and>
            (snd (strconv_ParseInt (Header_Get header ''Content-Length'')) = Some ErrRange \<longrightarrow>
               Size fi = 2 ^ 63 - 1 \<or> Size fi = - (2 ^ 63)) \<and>
            ((\<forall>layout\<in>set timeFormats.
                 isl (time_Parse layout (Header_Get header ''Last-Modified''))) \<longrightarrow>
               LastModified fi = Time_zero)) \<or>
         (\<exists>err s2. HeadObject time_Parse c objectKey opts s = (Inl (SdkError err), s2) \<and>
            (WithTagging (applyGetOpts opts) \<or> WithURL (applyGetOpts opts)))"
proof -
  from HeadObject_result [OF assms, of time_Parse opts]
  consider (ok) fi s2 where "HeadObject time_Parse c objectKey opts s = (Inr fi, s2)"
      "Key fi = objectKey"
      "Size fi = fst (strconv_ParseInt (Header_Get header ''Content-Length''))"
      "LastModified fi = fst (http_ParseTime time_Parse (Header_Get header ''Last-Modified''))"
    | (failed) err s2 where "HeadObject time_Parse c objectKey opts s = (Inl (SdkError err), s2)"
      "WithTagging (applyGetOpts opts) \<or> WithURL (applyGetOpts opts)"
    by blast
  then show ?thesis
  proof cases
    case ok
    have absent: "header ''Content-Length'' = None \<longrightarrow> Size fi = 0"
      using ok(3) by (simp add: Header_Get_def strconv_ParseInt_empty)
    have bad_syntax: "snd (strconv_ParseInt (Header_Get header ''Content-Length'')) = Some ErrSyntax \<longrightarrow>
               Size fi = 0"
      using ok(3) strconv_ParseInt_syntax by simp
    have non_digit: "\<forall>ds x rest.
               Header_Get header ''Content-Length'' = ds @ x # rest \<and>
               (\<forall>d\<in>set ds. decimal_digit d) \<and> \<not> decimal_digit x \<and> length ds \<le> 19 \<and>
               (ds = [] \<longrightarrow> x \<noteq> CHR ''+'' \<and> x \<noteq> CHR ''-'') \<longrightarrow> Size fi = 0"
      using ok(3) strconv_ParseInt_non_digit by simp
    have out_of_range: "snd (strconv_ParseInt (Header_Get header ''Content-Length'')) = Some ErrRange \<longrightarrow>
               Size fi = 2 ^ 63 - 1 \<or> Size fi = - (2 ^ 63)"
      using ok(3) strconv_ParseInt_range by simp
    have zero_time: "(\<forall>layout\<in>set timeFormats.
                 isl (time_Parse layout (Header_Get header ''Last-Modified''))) \<longrightarrow>
               LastModified fi = Time_zero"
      using ok(4) http_ParseTime_none by simp
    show ?thesis
      apply (rule disjI1)
      apply (rule exI [of _ fi])
      apply (rule exI [of _ s2])
      apply (intro conjI)
            apply (rule ok(1))
           apply (rule ok(2))
          apply (rule absent)
         apply (rule bad_syntax)
        apply (rule non_digit)
       apply (rule out_of_range)
      apply (rule zero_time)
      done
  next
    case failed
    then show ?thesis by blast
  qed
qed

theorem HeadObject_header_parse_errors_discarded_witness:
  "HeadObject time_Parse_table
     (logging_client (\<lambda>opt. Inl 500) (\<lambda>k. Inl 500)
        (\<lambda>k. Inr [''Content-Length'' \<mapsto> ''12a'', ''Last-Modified'' \<mapsto> ''not a time'',
                   ''ETag'' \<mapsto> CHR 0x22 # ''abc'' @ [CHR 0x22]]))
     ''k'' [] [] =
   (Inr \<lparr>Key = ''k'', LastModified = Time_zero, ETag = ''abc'', Size = 0, URL = [],
         Tagging = None\<rparr>,
    [HeadCall ''k'']) \<and>
   HeadObject time_Parse_table
     (logging_client (\<lambda>opt. Inl 500) (\<lambda>k. Inl 500) (\<lambda>k. Inr Map.empty)) ''k'' [] [] =
   (Inr \<lparr>Key = ''k'', LastModified = Time_zero, ETag = [], Size = 0, URL = [],
         Tagging = None\<rparr>,
    [HeadCall ''k''])"
proof -
  let ?header = "[''Content-Length'' \<mapsto> ''12a'', ''Last-Modified'' \<mapsto> ''not a time'',
                   ''ETag'' \<mapsto> CHR 0x22 # ''abc'' @ [CHR 0x22]]"
  let ?c = "logging_client (\<lambda>opt. Inl 500) (\<lambda>k. Inl 500) (\<lambda>k. Inr ?header)"
  let ?bare = "logging_client (\<lambda>opt. Inl 500) (\<lambda>k. Inl 500) (\<lambda>k. Inr Map.empty)"
  have head: "Object_Head (client ?c) ''k'' [] = (Inr ?header, [HeadCall ''k''])"
    by (simp add: logging_client_def)
  have opts: "\<not> WithTagging (applyGetOpts []) \<and> \<not> WithURL (applyGetOpts [])"
    by (simp add: applyGetOpts_def)
  have cl: "Header_Get ?header ''Content-Length'' = ''12'' @ CHR ''a'' # []"
    by (simp add: Header_Get_def)
  have digits: "(\<forall>d\<in>set ''12''. decimal_digit d) \<and> \<not> decimal_digit (CHR ''a'')"
    by (simp add: decimal_digit_def)
  have lm: "\<forall>layout\<in>set timeFormats.
              isl (time_Parse_table layout (Header_Get ?header ''Last-Modified''))"
    by (simp add: Header_Get_def time_Parse_table_def)
  from HeadObject_header_parse_errors_discarded [OF head, of time_Parse_table "[]"] opts
  obtain fi s2 where r: "HeadObject time_Parse_table ?c ''k'' [] [] = (Inr fi, s2)"
    and size: "\<forall>ds x rest.
               Header_Get ?header ''Content-Length'' = ds @ x # rest \<and>
               (\<forall>d\<in>set ds. decimal_digit d) \<and> \<not> decimal_digit x \<and> length ds \<le> 19 \<and>
               (ds = [] \<longrightarrow> x \<noteq> CHR ''+'' \<and> x \<noteq> CHR ''-'') \<longrightarrow> Size fi = 0"
    and time: "(\<forall>layout\<in>set timeFormats.
                 isl (time_Parse_table layout (Header_Get ?header ''Last-Modified''))) \<longrightarrow>
               LastModified fi = Time_zero"
    by blast
  from size have "Header_Get ?header ''Content-Length'' = ''12'' @ CHR ''a'' # [] \<and>
               (\<forall>d\<in>set ''12''. decimal_digit d) \<and> \<not> decimal_digit (CHR ''a'') \<and>
               length ''12'' \<le> 19 \<and>
               (''12'' = [] \<longrightarrow> CHR ''a'' \<noteq> CHR ''+'' \<and> CHR ''a'' \<noteq> CHR ''-'') \<longrightarrow> Size fi = 0"
    by (rule allE [where x = "''12''"], elim allE [where x = "CHR ''a''"] allE [where x = "[]"])
  with cl digits have "Size fi = 0"
    by simp
  moreover from time lm have "LastModified fi = Time_zero" by blast
  moreover have "fst (HeadObject time_Parse_table ?c ''k'' [] []) =
      Inr \<lparr>Key = ''k'',
           LastModified = fst (http_ParseTime time_Parse_table ''not a time''),
           ETag = ''abc'',
           Size = fst (strconv_ParseInt ''12a''), URL = [], Tagging = None\<rparr> \<and>
      snd (HeadObject time_Parse_table ?c ''k'' [] []) = [HeadCall ''k'']"
    by (simp add: HeadObject_def logging_client_def Header_Get_def Trim_def applyGetOpts_def)
  ultimately have malformed: "HeadObject time_Parse_table ?c ''k'' [] [] =
   (Inr \<lparr>Key = ''k'', LastModified = Time_zero, ETag = ''abc'', Size = 0, URL = [],
         Tagging = None\<rparr>,
    [HeadCall ''k''])"
    using r by (cases fi) auto
  have bare_head: "Object_Head (client ?bare) ''k'' [] = (Inr Map.empty, [HeadCall ''k''])"
    by (simp add: logging_client_def)
  have bare_lm: "\<forall>layout\<in>set timeFormats.
              isl (time_Parse_table layout (Header_Get Map.empty ''Last-Modified''))"
    by (simp add: Header_Get_def time_Parse_table_def)
  from HeadObject_header_parse_errors_discarded [OF bare_head, of time_Parse_table "[]"] opts
  obtain fi0 s0 where r0: "HeadObject time_Parse_table ?bare ''k'' [] [] = (Inr fi0, s0)"
    and size0: "Map.empty ''Content-Length'' = (None :: string option) \<longrightarrow> Size fi0 = 0"
    and time0: "(\<forall>layout\<in>set timeFormats.
                 isl (time_Parse_table layout (Header_Get Map.empty ''Last-Modified''))) \<longrightarrow>
               LastModified fi0 = Time_zero"
    by blast
  from size0 have "Size fi0 = 0" by simp
  moreover from time0 bare_lm have "LastModified fi0 = Time_zero" by blast
  moreover have "fst (HeadObject time_Parse_table ?bare ''k'' [] []) =
      Inr \<lparr>Key = ''k'',
           LastModified = fst (http_ParseTime time_Parse_table []),
           ETag = [],
           Size = fst (strconv_ParseInt []), URL = [], Tagging = None\<rparr> \<and>
      snd (HeadObject time_Parse_table ?bare ''k'' [] []) = [HeadCall ''k'']"
    by (simp add: HeadObject_def logging_client_def Header_Get_def Trim_def applyGetOpts_def)
  ultimately have absent: "HeadObject time_Parse_table ?bare ''k'' [] [] =
   (Inr \<lparr>Key = ''k'', LastModified = Time_zero, ETag = [], Size = 0, URL = [],
         Tagging = None\<rparr>,
    [HeadCall ''k''])"
    using r0 by (cases fi0) auto
  from malformed absent show ?thesis by simp
qed

theorem HeadObject_header_parse_errors_discarded_counterexample:
  "HeadObject time_Parse_table
     (logging_client (\<lambda>opt. Inl 500) (\<lambda>k. Inl 500)
        (\<lambda>k. Inr [''Content-Length'' \<mapsto> ''99999999999999999999x'']))
     ''k'' [] [] =
   (Inr \<lparr>Key = ''k'', LastModified = Time_zero, ETag = [], Size = 9223372036854775807,
         URL = [], Tagging = None\<rparr>,
    [HeadCall ''k'']) \<and>
   HeadObject time_Parse_table
     (logging_client (\<lambda>opt. Inl 500) (\<lambda>k. Inl 500)
        (\<lambda>k. Inr [''Content-Length'' \<mapsto> ''99999999999999999999'']))
     ''k'' [] [] =
   (Inr \<lparr>Key = ''k'', LastModified = Time_zero, ETag = [], Size = 9223372036854775807,
         URL = [], Tagging = None\<rparr>,
    [HeadCall ''k''])"
  by (simp add: HeadObject_def logging_client_def Header_Get_def Trim_def applyGetOpts_def
      strconv_ParseInt_def strconv_ParseUint_def decimal_digit_def http_ParseTime_def
      timeFormats_def time_Parse_table_def TimeFormat_def RFC850_def ANSIC_def Time_zero_def)

subsection \<open>Properties of the listing\<close>

lemma taskgroup_Wait_all:
  "taskgroup_Wait task fs s = (Inr fs', s') \<Longrightarrow>
   list_all2 (\<lambda>f f'. \<exists>s0 s1. task f s0 = (Inr f', s1)) fs fs'"
proof (induction fs arbitrary: s fs')
  case Nil
  then show ?case by simp
next
  case (Cons f fs)
  then show ?case
    by (fastforce split: prod.splits sum.splits)
qed


lemma tagging_task_result:
  "tagging_task c f s0 = (Inr f', s1) \<Longrightarrow>
   \<exists>tags. Object_GetTagging (client c) (Key f) s0 = (Inr tags, s1) \<and>
          f' = f\<lparr>Tagging := cosTagsToMap tags\<rparr>"
  by (auto simp: tagging_task_def split: prod.splits sum.splits)


lemma url_task_result:
  assumes "(case GetObjectUrl c (Key f) os s0 of
              (Inl err, s1) \<Rightarrow> (Inl err, s1)
            | (Inr url, s1) \<Rightarrow> (Inr (f\<lparr>URL := url\<rparr>), s1)) = (Inr f', s1)"
  shows "\<exists>url. f' = f\<lparr>URL := url\<rparr>"
proof (cases "GetObjectUrl c (Key f) os s0")
  case (Pair r s2)
  with assms show ?thesis by (cases r) auto
qed

lemma AssembleFileUrl_all:
  assumes "AssembleFileUrl c e fs s = (Inr fs', s')"
  shows "list_all2 (\<lambda>f f'. \<exists>url. f' = f\<lparr>URL := url\<rparr>) fs fs'"
proof -
  have "list_all2
     (\<lambda>f f'. \<exists>s0 s1. (case GetObjectUrl c (Key f) [\<lambda>opt. opt\<lparr>Expire := e\<rparr>] s0 of
                  (Inl err, s1) \<Rightarrow> (Inl err, s1)
                | (Inr url, s1) \<Rightarrow> (Inr (f\<lparr>URL := url\<rparr>), s1)) = (Inr f', s1)) fs fs'"
    using assms unfolding AssembleFileUrl_def by (rule taskgroup_Wait_all)
  then show ?thesis
    by (rule list_all2_mono) (blast dest: url_task_result)
qed

lemma ListObjectsPaginated_files_filter:
  "ListObjectsPaginated_files time_Parse objs =
     map (\<lambda>obj. \<lparr>Key = Object_Key obj,
                  LastModified = parseCosTime time_Parse (Object_LastModified obj),
                  ETag = Trim (Object_ETag obj) [CHR 0x22],
                  Size = Object_Size obj, URL = [], Tagging = None\<rparr>)
         (filter (\<lambda>obj. \<not> dir_marker obj) objs)"
  by (induction objs) (simp_all add: dir_marker_def)

lemma enrichment_result:
  assumes "(case (if wt then taskgroup_Wait (tagging_task c) files s1 else (Inr files, s1)) of
              (Inl err, s2) \<Rightarrow> (Inl err, s2)
            | (Inr files2, s2) \<Rightarrow>
                (case (if wu then AssembleFileUrl c e files2 s2 else (Inr files2, s2)) of
                   (Inl err, s3) \<Rightarrow> (Inl err, s3)
                 | (Inr files3, s3) \<Rightarrow> (Inr (g files3), s3))) = (Inr out, s')"
  shows "\<exists>files2 files3. out = g files3 \<and>
           (if wt then list_all2 (\<lambda>f f'. \<exists>s0 s1. tagging_task c f s0 = (Inr f', s1)) files files2
            else files2 = files) \<and>
           (if wu then list_all2 (\<lambda>f f'. \<exists>url. f' = f\<lparr>URL := url\<rparr>) files2 files3
            else files3 = files2)"
proof -
  obtain r2 s2 where t: "(if wt then taskgroup_Wait (tagging_task c) files s1 else (Inr files, s1)) = (r2, s2)"
    by (cases "if wt then taskgroup_Wait (tagging_task c) files s1 else (Inr files, s1)")
  with assms obtain files2 where r2: "r2 = Inr files2"
    by (cases r2) auto
  obtain r3 s3 where u: "(if wu then AssembleFileUrl c e files2 s2 else (Inr files2, s2)) = (r3, s3)"
    by (cases "if wu then AssembleFileUrl c e files2 s2 else (Inr files2, s2)")
  with assms t r2 obtain files3 where r3: "r3 = Inr files3"
    by (cases r3) auto
  from assms t r2 u r3 have out: "out = g files3" by simp
  have tag: "if wt then list_all2 (\<lambda>f f'. \<exists>s0 s1. tagging_task c f s0 = (Inr f', s1)) files files2
            else files2 = files"
    using t r2 by (auto dest: taskgroup_Wait_all)
  have url: "if wu then list_all2 (\<lambda>f f'. \<exists>url. f' = f\<lparr>URL := url\<rparr>) files2 files3
            else files3 = files2"
    using u r3 by (auto dest: AssembleFileUrl_all)
  from out tag url show ?thesis by blast
qed

lemma ListObjectsPaginated_ok:
  assumes "ListObjectsPaginated time_Parse c input opts s = (Inr out, s')"
  shows "\<exists>inp result s1 files2.
           input = Some inp \<and> 0 < PageSize inp \<and>
           Bucket_Get (client c)
             \<lparr>Get_Prefix = Prefix inp, Marker = Cursor inp, MaxKeys = PageSize inp\<rparr> s =
             (Inr result, s1) \<and>
           Output_Cursor out = NextMarker result \<and>
           IsTruncated out = Result_IsTruncated result \<and>
           (if WithTagging (applyGetOpts opts)
            then list_all2 (\<lambda>f f'. \<exists>s0 s1. tagging_task c f s0 = (Inr f', s1))
                   (ListObjectsPaginated_files time_Parse (Contents result)) files2
            else files2 = ListObjectsPaginated_files time_Parse (Contents result)) \<and>
           (if WithURL (applyGetOpts opts)
            then list_all2 (\<lambda>f f'. \<exists>url. f' = f\<lparr>URL := url\<rparr>) files2 (Files out)
            else Files out = files2)"
proof (cases input)
  case None
  with assms show ?thesis by (simp add: ListObjectsPaginated_def)
next
  case (Some inp)
  show ?thesis
  proof (cases "PageSize inp \<le> 0")
    case True
    with assms Some show ?thesis by (simp add: ListObjectsPaginated_def)
  next
    case False
    obtain r s1 where get: "Bucket_Get (client c)
             \<lparr>Get_Prefix = Prefix inp, Marker = Cursor inp, MaxKeys = PageSize inp\<rparr> s = (r, s1)"
      by (cases "Bucket_Get (client c)
             \<lparr>Get_Prefix = Prefix inp, Marker = Cursor inp, MaxKeys = PageSize inp\<rparr> s")
    with assms Some False obtain result where r: "r = Inr result"
      by (cases r) (auto simp: ListObjectsPaginated_def)
    let ?g = "\<lambda>files3. \<lparr>Files = files3, Output_Cursor = NextMarker result,
                                    IsTruncated = Result_IsTruncated result\<rparr>"
    from assms Some False get r
    have "(case (if WithTagging (applyGetOpts opts)
                 then taskgroup_Wait (tagging_task c)
                        (ListObjectsPaginated_files time_Parse (Contents result)) s1
                 else (Inr (ListObjectsPaginated_files time_Parse (Contents result)), s1)) of
              (Inl err, s2) \<Rightarrow> (Inl err, s2)
            | (Inr files2, s2) \<Rightarrow>
                (case (if WithURL (applyGetOpts opts)
                       then AssembleFileUrl c (Expire (applyGetOpts opts)) files2 s2
                       else (Inr files2, s2)) of
                   (Inl err, s3) \<Rightarrow> (Inl err, s3)
                 | (Inr files3, s3) \<Rightarrow> (Inr (?g files3), s3))) = (Inr out, s')"
      by (simp add: ListObjectsPaginated_def Let_def)
    from enrichment_result [OF this]
    obtain files2 files3 where "out = ?g files3"
      and "if WithTagging (applyGetOpts opts)
           then list_all2 (\<lambda>f f'. \<exists>s0 s1. tagging_task c f s0 = (Inr f', s1))
                  (ListObjectsPaginated_files time_Parse (Contents result)) files2
           else files2 = ListObjectsPaginated_files time_Parse (Contents result)"
      and "if WithURL (applyGetOpts opts)
           then list_all2 (\<lambda>f f'. \<exists>url. f' = f\<lparr>URL := url\<rparr>) files2 files3
           else files3 = files2"
      by blast
    with Some False get r show ?thesis by auto
  qed
qed

lemma ListObjectsPaginated_keys:
  assumes "ListObjectsPaginated time_Parse c input opts s = (Inr out, s')"
  shows "\<exists>inp result s1.
           input = Some inp \<and> 0 < PageSize inp \<and>
           Bucket_Get (client c)
             \<lparr>Get_Prefix = Prefix inp, Marker = Cursor inp, MaxKeys = PageSize inp\<rparr> s =
             (Inr result, s1) \<and>
           list_all2 (\<lambda>f f'. \<exists>tagging url. f' = f\<lparr>Tagging := tagging, URL := url\<rparr>)
             (ListObjectsPaginated_files time_Parse (Contents result)) (Files out)"
proof -
  from ListObjectsPaginated_ok [OF assms]
  obtain inp result s1 files2 where a: "input = Some inp" "0 < PageSize inp"
      "Bucket_Get (client c)
             \<lparr>Get_Prefix = Prefix inp, Marker = Cursor inp, MaxKeys = PageSize inp\<rparr> s =
             (Inr result, s1)"
    and tag: "if WithTagging (applyGetOpts opts)
            then list_all2 (\<lambda>f f'. \<exists>s0 s1. tagging_task c f s0 = (Inr f', s1))
                   (ListObjectsPaginated_files time_Parse (Contents result)) files2
            else files2 = ListObjectsPaginated_files time_Parse (Contents result)"
    and url: "if WithURL (applyGetOpts opts)
            then list_all2 (\<lambda>f f'. \<exists>url. f' = f\<lparr>URL := url\<rparr>) files2 (Files out)
            else Files out = files2"
    by blast
  let ?files = "ListObjectsPaginated_files time_Parse (Contents result)"
  have t: "list_all2 (\<lambda>f f'. \<exists>tagging. f' = f\<lparr>Tagging := tagging\<rparr>) ?files files2"
  proof (cases "WithTagging (applyGetOpts opts)")
    case True
    with tag have "list_all2 (\<lambda>f f'. \<exists>s0 s1. tagging_task c f s0 = (Inr f', s1)) ?files files2"
      by simp
    then show ?thesis
      by (rule list_all2_mono) (blast dest: tagging_task_result)
  next
    case False
    with tag have "files2 = ?files" by simp
    moreover have "list_all2 (\<lambda>f f'. \<exists>tagging. f' = f\<lparr>Tagging := tagging\<rparr>) ?files ?files"
      by (rule list_all2_refl) (metis FileInfo.surjective FileInfo.update_convs(6))
    ultimately show ?thesis by simp
  qed
  have u: "list_all2 (\<lambda>f f'. \<exists>url. f' = f\<lparr>URL := url\<rparr>) files2 (Files out)"
  proof (cases "WithURL (applyGetOpts opts)")
    case True
    with url show ?thesis by simp
  next
    case False
    with url have "Files out = files2" by simp
    moreover have "list_all2 (\<lambda>f f'. \<exists>url. f' = f\<lparr>URL := url\<rparr>) files2 files2"
      by (rule list_all2_refl) (metis FileInfo.surjective FileInfo.update_convs(5))
    ultimately show ?thesis by simp
  qed
  have "list_all2 (\<lambda>f f'. \<exists>tagging url. f' = f\<lparr>Tagging := tagging, URL := url\<rparr>)
             ?files (Files out)"
  proof (rule list_all2_trans [OF _ t u])
    fix a b d :: FileInfo
    assume "\<exists>tagging. b = a\<lparr>Tagging := tagging\<rparr>" and "\<exists>url. d = b\<lparr>URL := url\<rparr>"
    then show "\<exists>tagging url. d = a\<lparr>Tagging := tagging, URL := url\<rparr>"
      by blast
  qed
  with a show ?thesis by blast
qed

lemma ListObjectsPaginated_page:
  assumes "ListObjectsPaginated time_Parse c input opts s = (Inr out, s')"
  shows "\<exists>inp result s1.
           input = Some inp \<and> 0 < PageSize inp \<and>
           Bucket_Get (client c)
             \<lparr>Get_Prefix = Prefix inp, Marker = Cursor inp, MaxKeys = PageSize inp\<rparr> s =
             (Inr result, s1) \<and>
           map Key (Files out) =
             map Object_Key (filter (\<lambda>obj. \<not> dir_marker obj) (Contents result)) \<and>
           map Size (Files out) =
             map Object_Size (filter (\<lambda>obj. \<not> dir_marker obj) (Contents result))"
proof -
  from ListObjectsPaginated_keys [OF assms]
  obtain inp result s1 where a: "input = Some inp" "0 < PageSize inp"
      "Bucket_Get (client c)
             \<lparr>Get_Prefix = Prefix inp, Marker = Cursor inp, MaxKeys = PageSize inp\<rparr> s =
             (Inr result, s1)"
    and rel: "list_all2 (\<lambda>f f'. \<exists>tagging url. f' = f\<lparr>Tagging := tagging, URL := url\<rparr>)
             (ListObjectsPaginated_files time_Parse (Contents result)) (Files out)"
    by blast
  from rel have "list_all2 (\<lambda>f f'. Key f' = Key f \<and> Size f' = Size f)
             (ListObjectsPaginated_files time_Parse (Contents result)) (Files out)"
    by (rule list_all2_mono) auto
  then have "map Key (Files out) =
               map Key (ListObjectsPaginated_files time_Parse (Contents result)) \<and>
             map Size (Files out) =
               map Size (ListObjectsPaginated_files time_Parse (Contents result))"
    by (induction rule: list_all2_induct) simp_all
  then have "map Key (Files out) =
             map Object_Key (filter (\<lambda>obj. \<not> dir_marker obj) (Contents result)) \<and>
           map Size (Files out) =
             map Object_Size (filter (\<lambda>obj. \<not> dir_marker obj) (Contents result))"
    by (simp add: ListObjectsPaginated_files_filter comp_def)
  with a show ?thesis by blast
qed

lemma ListObjectsPaginated_no_marker:
  assumes "ListObjectsPaginated time_Parse c input opts s = (Inr out, s')"
  shows "\<forall>f\<in>set (Files out). \<not> dir_marker_file f"
proof -
  from ListObjectsPaginated_page [OF assms]
  obtain result :: BucketGetResult where k: "map Key (Files out) =
             map Object_Key (filter (\<lambda>obj. \<not> dir_marker obj) (Contents result))"
    and z: "map Size (Files out) =
             map Object_Size (filter (\<lambda>obj. \<not> dir_marker obj) (Contents result))"
    by auto
  let ?objs = "filter (\<lambda>obj. \<not> dir_marker obj) (Contents result)"
  have len: "length (Files out) = length ?objs"
    using k by (metis length_map)
  show ?thesis
  proof
    fix f assume "f \<in> set (Files out)"
    then obtain i where i: "i < length (Files out)" "f = Files out ! i"
      by (metis in_set_conv_nth)
    with len have "i < length ?objs" by simp
    then have "?objs ! i \<in> set ?objs" by (rule nth_mem)
    then have nd: "\<not> dir_marker (?objs ! i)" by simp
    from i len k have "Key f = Object_Key (?objs ! i)"
      by (metis nth_map)
    moreover from i len z have "Size f = Object_Size (?objs ! i)"
      by (metis nth_map)
    ultimately show "\<not> dir_marker_file f"
      using nd by (simp add: dir_marker_def dir_marker_file_def)
  qed
qed

lemma ListAllObjects_loop_trace:
  assumes "ListAllObjects_loop time_Parse c pfx opts files cursor s = Some y"
  shows "\<forall>r s'. y = (Inr r, s') \<longrightarrow>
           (\<exists>outs. r = files @ concat (map Files outs) \<and>
              (\<forall>out\<in>set outs. \<exists>cursor0 s0 s1.
                 ListObjectsPaginated time_Parse c
                   (Some \<lparr>Prefix = pfx, PageSize = 100, Cursor = cursor0\<rparr>) opts s0 =
                   (Inr out, s1)))"
  using assms
proof (induction time_Parse c pfx opts files cursor s y
    rule: ListAllObjects_loop.raw_induct [rotated, consumes 1, case_names step])
  case (step loop time_Parse c pfx opts files cursor s y)
  obtain p s1 where page: "ListObjectsPaginated time_Parse c
             (Some \<lparr>Prefix = pfx, PageSize = 100, Cursor = cursor\<rparr>) opts s = (p, s1)"
    by (cases "ListObjectsPaginated time_Parse c
             (Some \<lparr>Prefix = pfx, PageSize = 100, Cursor = cursor\<rparr>) opts s")
  show ?case
  proof (cases p)
    case (Inl err)
    with step(2) page show ?thesis by auto
  next
    case (Inr out)
    have call: "\<exists>cursor0 s0 s1. ListObjectsPaginated time_Parse c
                   (Some \<lparr>Prefix = pfx, PageSize = 100, Cursor = cursor0\<rparr>) opts s0 =
                   (Inr out, s1)"
      using page Inr by blast
    show ?thesis
    proof (cases "10000 \<le> length (files @ Files out) \<or> \<not> IsTruncated out \<or>
                  Output_Cursor out = []")
      case True
      with step(2) page Inr have y: "y = (Inr (files @ Files out), s1)"
        by (auto simp: Let_def split: if_splits)
      show ?thesis
      proof (intro allI impI)
        fix r s' assume "y = (Inr r, s')"
        with y have "r = files @ concat (map Files [out])" by simp
        with call show "\<exists>outs. r = files @ concat (map Files outs) \<and>
              (\<forall>out\<in>set outs. \<exists>cursor0 s0 s1.
                 ListObjectsPaginated time_Parse c
                   (Some \<lparr>Prefix = pfx, PageSize = 100, Cursor = cursor0\<rparr>) opts s0 =
                   (Inr out, s1))"
          by (intro exI [of _ "[out]"]) simp
      qed
    next
      case False
      with step(2) page Inr
      have "loop time_Parse c pfx opts (files @ Files out) (Output_Cursor out) s1 = Some y"
        by (auto simp: Let_def)
      from step(1) [OF this]
      have ih: "\<forall>r s'. y = (Inr r, s') \<longrightarrow>
           (\<exists>outs. r = (files @ Files out) @ concat (map Files outs) \<and>
              (\<forall>out\<in>set outs. \<exists>cursor0 s0 s1.
                 ListObjectsPaginated time_Parse c
                   (Some \<lparr>Prefix = pfx, PageSize = 100, Cursor = cursor0\<rparr>) opts s0 =
                   (Inr out, s1)))" .
      show ?thesis
      proof (intro allI impI)
        fix r s' assume "y = (Inr r, s')"
        with ih obtain outs where r: "r = (files @ Files out) @ concat (map Files outs)"
          and all: "\<forall>out\<in>set outs. \<exists>cursor0 s0 s1.
                 ListObjectsPaginated time_Parse c
                   (Some \<lparr>Prefix = pfx, PageSize = 100, Cursor = cursor0\<rparr>) opts s0 =
                   (Inr out, s1)"
          by blast
        from r have "r = files @ concat (map Files (out # outs))" by simp
        moreover from call all have "\<forall>out\<in>set (out # outs). \<exists>cursor0 s0 s1.
                 ListObjectsPaginated time_Parse c
                   (Some \<lparr>Prefix = pfx, PageSize = 100, Cursor = cursor0\<rparr>) opts s0 =
                   (Inr out, s1)"
          by simp
        ultimately show "\<exists>outs. r = files @ concat (map Files outs) \<and>
              (\<forall>out\<in>set outs. \<exists>cursor0 s0 s1.
                 ListObjectsPaginated time_Parse c
                   (Some \<lparr>Prefix = pfx, PageSize = 100, Cursor = cursor0\<rparr>) opts s0 =
                   (Inr out, s1))"
          by blast
      qed
    qed
  qed
qed

lemma ListAllObjects_pages:
  assumes "ListAllObjects time_Parse c pfx opts s = Some (Inr files, s')"
  shows "\<exists>outs. files = concat (map Files outs) \<and>
           (\<forall>out\<in>set outs. \<exists>cursor0 s0 s1.
              ListObjectsPaginated time_Parse c
                (Some \<lparr>Prefix = pfx, PageSize = 100, Cursor = cursor0\<rparr>) opts s0 =
                (Inr out, s1))"
  using ListAllObjects_loop_trace [of time_Parse c pfx opts "[]" "[]" s "(Inr files, s')"] assms
  by (simp add: ListAllObjects_def)

lemma ListAllObjects_no_marker:
  assumes "ListAllObjects time_Parse c pfx opts s = Some (Inr files, s')"
  shows "\<forall>f\<in>set files. \<not> dir_marker_file f"
proof -
  from ListAllObjects_pages [OF assms]
  obtain outs where files: "files = concat (map Files outs)"
    and all: "\<forall>out\<in>set outs. \<exists>cursor0 s0 s1.
              ListObjectsPaginated time_Parse c
                (Some \<lparr>Prefix = pfx, PageSize = 100, Cursor = cursor0\<rparr>) opts s0 =
                (Inr out, s1)"
    by blast
  show ?thesis
  proof
    fix f assume "f \<in> set files"
    with files obtain out where out: "out \<in> set outs" "f \<in> set (Files out)" by auto
    with all obtain cursor0 s0 s1 where "ListObjectsPaginated time_Parse c
                (Some \<lparr>Prefix = pfx, PageSize = 100, Cursor = cursor0\<rparr>) opts s0 =
                (Inr out, s1)"
      by blast
    from ListObjectsPaginated_no_marker [OF this] out show "\<not> dir_marker_file f" by blast
  qed
qed

lemma ListObjectsPaginated_length:
  assumes "ListObjectsPaginated time_Parse c input opts s = (Inr out, s')"
  shows "\<exists>inp result s1.
           input = Some inp \<and>
           Bucket_Get (client c)
             \<lparr>Get_Prefix = Prefix inp, Marker = Cursor inp, MaxKeys = PageSize inp\<rparr> s =
             (Inr result, s1) \<and>
           Output_Cursor out = NextMarker result \<and>
           IsTruncated out = Result_IsTruncated result \<and>
           length (Files out) = length (filter (\<lambda>obj. \<not> dir_marker obj) (Contents result))"
proof -
  from ListObjectsPaginated_ok [OF assms]
  obtain inp and result :: BucketGetResult and s1
    where a: "input = Some inp" "Bucket_Get (client c)
             \<lparr>Get_Prefix = Prefix inp, Marker = Cursor inp, MaxKeys = PageSize inp\<rparr> s =
             (Inr result, s1)" "Output_Cursor out = NextMarker result"
           "IsTruncated out = Result_IsTruncated result"
    by auto
  from ListObjectsPaginated_page [OF assms] a(1,2)
  have "map Key (Files out) =
             map Object_Key (filter (\<lambda>obj. \<not> dir_marker obj) (Contents result))"
    by auto
  then have "length (Files out) = length (filter (\<lambda>obj. \<not> dir_marker obj) (Contents result))"
    by (metis length_map)
  with a show ?thesis by blast
qed

lemma page_of_hundred:
  assumes "respects_MaxKeys c"
    and "ListObjectsPaginated time_Parse c
           (Some \<lparr>Prefix = pfx, PageSize = 100, Cursor = cursor\<rparr>) opts s = (Inr out, s1)"
  shows "length (Files out) \<le> 100"
proof -
  from ListObjectsPaginated_length [OF assms(2)]
  obtain result :: BucketGetResult and s0
    where get: "Bucket_Get (client c)
             \<lparr>Get_Prefix = pfx, Marker = cursor, MaxKeys = 100\<rparr> s = (Inr result, s0)"
      and len: "length (Files out) = length (filter (\<lambda>obj. \<not> dir_marker obj) (Contents result))"
    by auto
  from assms(1) get have "length (Contents result) \<le> 100"
    unfolding respects_MaxKeys_def by fastforce
  moreover have "length (filter (\<lambda>obj. \<not> dir_marker obj) (Contents result)) \<le>
                 length (Contents result)"
    by (rule length_filter_le)
  ultimately show ?thesis using len by linarith
qed

lemma ListAllObjects_loop_bound:
  assumes "ListAllObjects_loop time_Parse c pfx opts files cursor s = Some y"
  shows "respects_MaxKeys c \<longrightarrow> length files < 10000 \<longrightarrow>
         (\<forall>r s'. y = (Inr r, s') \<longrightarrow> length r < 10100)"
  using assms
proof (induction time_Parse c pfx opts files cursor s y
    rule: ListAllObjects_loop.raw_induct [rotated, consumes 1, case_names step])
  case (step loop time_Parse c pfx opts files cursor s y)
  obtain p s1 where page: "ListObjectsPaginated time_Parse c
             (Some \<lparr>Prefix = pfx, PageSize = 100, Cursor = cursor\<rparr>) opts s = (p, s1)"
    by (cases "ListObjectsPaginated time_Parse c
             (Some \<lparr>Prefix = pfx, PageSize = 100, Cursor = cursor\<rparr>) opts s")
  show ?case
  proof (intro impI allI)
    fix r s'
    assume resp: "respects_MaxKeys c" and small: "length files < 10000"
      and y: "y = (Inr r, s')"
    show "length r < 10100"
    proof (cases p)
      case (Inl err)
      with step(2) page y show ?thesis by auto
    next
      case (Inr out)
      from page_of_hundred [OF resp] page Inr have hundred: "length (Files out) \<le> 100"
        by blast
      show ?thesis
      proof (cases "10000 \<le> length (files @ Files out) \<or> \<not> IsTruncated out \<or>
                    Output_Cursor out = []")
        case True
        with step(2) page Inr have "y = (Inr (files @ Files out), s1)"
          by (auto simp: Let_def split: if_splits)
        with y hundred small show ?thesis by auto
      next
        case False
        with step(2) page Inr
        have "loop time_Parse c pfx opts (files @ Files out) (Output_Cursor out) s1 = Some y"
          by (auto simp: Let_def)
        from step(1) [OF this] resp False y show ?thesis by simp
      qed
    qed
  qed
qed

lemma ListAllObjects_loop_returns:
  assumes "yields_files c"
  shows "\<exists>y. ListAllObjects_loop time_Parse c pfx opts files cursor s = Some y"
proof (induction "10000 - length files" arbitrary: files cursor s rule: less_induct)
  case less
  obtain p s1 where page: "ListObjectsPaginated time_Parse c
             (Some \<lparr>Prefix = pfx, PageSize = 100, Cursor = cursor\<rparr>) opts s = (p, s1)"
    by (cases "ListObjectsPaginated time_Parse c
             (Some \<lparr>Prefix = pfx, PageSize = 100, Cursor = cursor\<rparr>) opts s")
  show ?case
  proof (cases p)
    case (Inl err)
    with page show ?thesis
      by (subst ListAllObjects_loop.simps) simp
  next
    case (Inr out)
    show ?thesis
    proof (cases "10000 \<le> length (files @ Files out) \<or> \<not> IsTruncated out \<or>
                  Output_Cursor out = []")
      case True
      with page Inr show ?thesis
        by (subst ListAllObjects_loop.simps) (auto simp: Let_def)
    next
      case False
      from page Inr have pg: "ListObjectsPaginated time_Parse c
             (Some \<lparr>Prefix = pfx, PageSize = 100, Cursor = cursor\<rparr>) opts s = (Inr out, s1)"
        by simp
      from ListObjectsPaginated_length [OF pg]
      obtain result :: BucketGetResult and s0
        where get: "Bucket_Get (client c)
               \<lparr>Get_Prefix = pfx, Marker = cursor, MaxKeys = 100\<rparr> s = (Inr result, s0)"
          and cur: "Output_Cursor out = NextMarker result"
          and tr: "IsTruncated out = Result_IsTruncated result"
          and len: "length (Files out) =
                      length (filter (\<lambda>obj. \<not> dir_marker obj) (Contents result))"
        by auto
      have "0 < MaxKeys \<lparr>Get_Prefix = pfx, Marker = cursor, MaxKeys = 100\<rparr>"
        by simp
      moreover from cur tr False
      have "Result_IsTruncated result \<and> NextMarker result \<noteq> []"
        by simp
      ultimately have "\<exists>obj\<in>set (Contents result). \<not> dir_marker obj"
        using assms get unfolding yields_files_def by blast
      then have "filter (\<lambda>obj. \<not> dir_marker obj) (Contents result) \<noteq> []"
        by (simp add: filter_empty_conv)
      with len have "0 < length (Files out)" by simp
      moreover from False have "length (files @ Files out) < 10000" by simp
      ultimately have "10000 - length (files @ Files out) < 10000 - length files"
        unfolding length_append by linarith
      from less [OF this]
      obtain y where "ListAllObjects_loop time_Parse c pfx opts (files @ Files out)
                        (Output_Cursor out) s1 = Some y"
        by blast
      with page Inr False show ?thesis
        by (subst ListAllObjects_loop.simps) (auto simp: Let_def)
    qed
  qed
qed

lemma ListAllObjects_loop_stops_at_cap:
  assumes "ListObjectsPaginated time_Parse c
             (Some \<lparr>Prefix = pfx, PageSize = 100, Cursor = cursor\<rparr>) opts s = (Inr out, s1)"
    and "10000 \<le> length (files @ Files out)"
  shows "ListAllObjects_loop time_Parse c pfx opts files cursor s =
           Some (Inr (files @ Files out), s1)"
  using assms by (subst ListAllObjects_loop.simps) (simp add: Let_def)

text \<open>
  The calls that a listing makes, read from the log of the logging remote: the list request
  comes first, and the enrichment only adds calls after it.
\<close>

lemma taskgroup_Wait_extends:
  assumes "\<And>f s0. prefix s0 (snd (task f s0))"
  shows "prefix s (snd (taskgroup_Wait task fs s))"
proof (induction fs arbitrary: s)
  case Nil
  then show ?case by simp
next
  case (Cons f fs)
  obtain r s1 where t: "task f s = (r, s1)" by (cases "task f s")
  with assms [of s f] have p1: "prefix s s1" by simp
  show ?case
  proof (cases r)
    case (Inl err)
    with t p1 show ?thesis by simp
  next
    case (Inr f')
    obtain r2 s2 where w: "taskgroup_Wait task fs s1 = (r2, s2)"
      by (cases "taskgroup_Wait task fs s1")
    with Cons.IH [of s1] have "prefix s1 s2" by simp
    with p1 have "prefix s s2" by (rule prefix_order.trans)
    with t Inr w show ?thesis by (cases r2) simp_all
  qed
qed

lemma logging_tagging_extends:
  "prefix s0 (snd (tagging_task (logging_client listing tags head) f s0))"
  by (simp add: tagging_task_def logging_client_def split: sum.splits)

lemma logging_url_extends:
  "prefix s0 (snd (case GetObjectUrl (logging_client listing tags head) (Key f) os s0 of
                     (Inl err, s1) \<Rightarrow> (Inl err, s1)
                   | (Inr url, s1) \<Rightarrow> (Inr (f\<lparr>URL := url\<rparr>), s1)))"
  by (simp add: GetObjectUrl_def logging_client_def Let_def)

lemma logging_list_call:
  assumes "0 < PageSize inp"
  shows "prefix (log @ [GetCall \<lparr>Get_Prefix = Prefix inp, Marker = Cursor inp,
                                 MaxKeys = PageSize inp\<rparr>])
           (snd (ListObjectsPaginated time_Parse (logging_client listing tags head)
                   (Some inp) opts log))"
proof -
  let ?c = "logging_client listing tags head"
  let ?opt = "\<lparr>Get_Prefix = Prefix inp, Marker = Cursor inp, MaxKeys = PageSize inp\<rparr>"
  let ?s1 = "log @ [GetCall ?opt]"
  have get: "Bucket_Get (client ?c) ?opt log = (listing ?opt, ?s1)"
    by (simp add: logging_client_def)
  show ?thesis
  proof (cases "listing ?opt")
    case (Inl err)
    with assms get show ?thesis by (simp add: ListObjectsPaginated_def)
  next
    case (Inr result)
    let ?files = "ListObjectsPaginated_files time_Parse (Contents result)"
    obtain r2 s2 where t: "(if WithTagging (applyGetOpts opts)
                            then taskgroup_Wait (tagging_task ?c) ?files ?s1
                            else (Inr ?files, ?s1)) = (r2, s2)"
      by (cases "if WithTagging (applyGetOpts opts)
                 then taskgroup_Wait (tagging_task ?c) ?files ?s1 else (Inr ?files, ?s1)")
    have p2: "prefix ?s1 s2"
    proof (cases "WithTagging (applyGetOpts opts)")
      case True
      with t have "s2 = snd (taskgroup_Wait (tagging_task ?c) ?files ?s1)" by simp
      then show ?thesis
        using taskgroup_Wait_extends [of "tagging_task ?c" ?s1 ?files]
          logging_tagging_extends [of _ listing tags head]
        by simp
    next
      case False
      with t show ?thesis by simp
    qed
    show ?thesis
    proof (cases r2)
      case (Inl err)
      with assms get Inr t p2 show ?thesis
        by (simp add: ListObjectsPaginated_def Let_def)
    next
      case files2: (Inr files2)
      obtain r3 s3 where u: "(if WithURL (applyGetOpts opts)
                              then AssembleFileUrl ?c (Expire (applyGetOpts opts)) files2 s2
                              else (Inr files2, s2)) = (r3, s3)"
        by (cases "if WithURL (applyGetOpts opts)
                   then AssembleFileUrl ?c (Expire (applyGetOpts opts)) files2 s2
                   else (Inr files2, s2)")
      have "prefix s2 s3"
      proof (cases "WithURL (applyGetOpts opts)")
        case True
        with u have "s3 = snd (AssembleFileUrl ?c (Expire (applyGetOpts opts)) files2 s2)"
          by simp
        then show ?thesis
          unfolding AssembleFileUrl_def
          by (simp add: taskgroup_Wait_extends logging_url_extends)
      next
        case False
        with u show ?thesis by simp
      qed
      with p2 have "prefix ?s1 s3" by (rule prefix_order.trans)
      with assms get Inr t files2 u show ?thesis
        by (cases r3) (simp_all add: ListObjectsPaginated_def Let_def)
    qed
  qed
qed

text \<open>
  C5. ListObjectsPaginated returns an error, and leaves the remote untouched, when its input
  is nil and when the page size is not positive. With a positive page size it calls the
  remote list primitive with the prefix, the cursor as marker and the page size as
  MaxKeys: a failure of that call is the wrapped error of the listing, and the page it
  returns carries the marker and the truncation flag of that call's result. In the log of
  the logging remote, that request is the first call that the listing adds.
\<close>

theorem ListObjectsPaginated_rejects_invalid_input:
  "ListObjectsPaginated time_Parse c None opts s = (Inl (Errorf ''input cannot be nil''), s) \<and>
   (PageSize inp \<le> 0 \<longrightarrow>
      ListObjectsPaginated time_Parse c (Some inp) opts s =
        (Inl (Errorf ''page size must be positive''), s)) \<and>
   (0 < PageSize inp \<longrightarrow>
      (\<forall>err s1.
         Bucket_Get (client c)
           \<lparr>Get_Prefix = Prefix inp, Marker = Cursor inp, MaxKeys = PageSize inp\<rparr> s =
           (Inl err, s1) \<longrightarrow>
         ListObjectsPaginated time_Parse c (Some inp) opts s =
           (Inl (Wrapf ''list objects failed: '' (SdkError err)), s1)) \<and>
      (\<forall>out s'.
         ListObjectsPaginated time_Parse c (Some inp) opts s = (Inr out, s') \<longrightarrow>
         (\<exists>result s1.
            Bucket_Get (client c)
              \<lparr>Get_Prefix = Prefix inp, Marker = Cursor inp, MaxKeys = PageSize inp\<rparr> s =
              (Inr result, s1) \<and>
            Output_Cursor out = NextMarker result \<and>
            IsTruncated out = Result_IsTruncated result))) \<and>
   (0 < PageSize inp \<longrightarrow>
      prefix (log @ [GetCall \<lparr>Get_Prefix = Prefix inp, Marker = Cursor inp,
                               MaxKeys = PageSize inp\<rparr>])
        (snd (ListObjectsPaginated time_Parse (logging_client listing tags head)
                (Some inp) opts log)))"
proof (intro conjI impI allI)
  assume "0 < PageSize inp"
  then show "prefix (log @ [GetCall \<lparr>Get_Prefix = Prefix inp, Marker = Cursor inp,
                               MaxKeys = PageSize inp\<rparr>])
        (snd (ListObjectsPaginated time_Parse (logging_client listing tags head)
                (Some inp) opts log))"
    by (rule logging_list_call)
next
  show "ListObjectsPaginated time_Parse c None opts s = (Inl (Errorf ''input cannot be nil''), s)"
    by (simp add: ListObjectsPaginated_def)
next
  assume "PageSize inp \<le> 0"
  then show "ListObjectsPaginated time_Parse c (Some inp) opts s =
        (Inl (Errorf ''page size must be positive''), s)"
    by (simp add: ListObjectsPaginated_def)
next
  fix err s1
  assume "0 < PageSize inp"
    and "Bucket_Get (client c)
           \<lparr>Get_Prefix = Prefix inp, Marker = Cursor inp, MaxKeys = PageSize inp\<rparr> s =
           (Inl err, s1)"
  then show "ListObjectsPaginated time_Parse c (Some inp) opts s =
           (Inl (Wrapf ''list objects failed: '' (SdkError err)), s1)"
    by (simp add: ListObjectsPaginated_def)
next
  fix out s'
  assume "0 < PageSize inp"
    and "ListObjectsPaginated time_Parse c (Some inp) opts s = (Inr out, s')"
  from ListObjectsPaginated_length [OF this(2)]
  show "\<exists>result s1.
            Bucket_Get (client c)
              \<lparr>Get_Prefix = Prefix inp, Marker = Cursor inp, MaxKeys = PageSize inp\<rparr> s =
              (Inr result, s1) \<and>
            Output_Cursor out = NextMarker result \<and>
            IsTruncated out = Result_IsTruncated result"
    by auto
qed

theorem ListObjectsPaginated_rejects_invalid_input_witness:
  "ListObjectsPaginated time_Parse_table (logging_client demo_listing demo_tags (\<lambda>k. Inl 404))
     None [] [] = (Inl (Errorf ''input cannot be nil''), []) \<and>
   ListObjectsPaginated time_Parse_table (logging_client demo_listing demo_tags (\<lambda>k. Inl 404))
     (Some \<lparr>Prefix = ''p'', PageSize = 0, Cursor = ''c''\<rparr>) [] [] =
     (Inl (Errorf ''page size must be positive''), []) \<and>
   ListObjectsPaginated time_Parse_table
     (logging_client (\<lambda>opt. Inl 500) demo_tags (\<lambda>k. Inl 404))
     (Some \<lparr>Prefix = ''p'', PageSize = 10, Cursor = ''c''\<rparr>) [] [] =
     (Inl (Wrapf ''list objects failed: '' (SdkError 500)),
      [GetCall \<lparr>Get_Prefix = ''p'', Marker = ''c'', MaxKeys = 10\<rparr>]) \<and>
   ListObjectsPaginated time_Parse_table (logging_client demo_listing demo_tags (\<lambda>k. Inl 404))
     (Some \<lparr>Prefix = ''p'', PageSize = 10, Cursor = ''c''\<rparr>) [] [] =
     (Inr \<lparr>Files = [\<lparr>Key = ''a.txt'', LastModified = Time_zero, ETag = [], Size = 10,
                     URL = [], Tagging = None\<rparr>],
           Output_Cursor = [], IsTruncated = False\<rparr>,
      [GetCall \<lparr>Get_Prefix = ''p'', Marker = ''c'', MaxKeys = 10\<rparr>])"
proof -
  let ?c = "logging_client demo_listing demo_tags (\<lambda>k. Inl 404)"
  let ?bad = "logging_client (\<lambda>opt. Inl 500) demo_tags (\<lambda>k. Inl 404)"
  have get: "Bucket_Get (client ?bad)
           \<lparr>Get_Prefix = Prefix \<lparr>Prefix = ''p'', PageSize = 10, Cursor = ''c''\<rparr>,
            Marker = Cursor \<lparr>Prefix = ''p'', PageSize = 10, Cursor = ''c''\<rparr>,
            MaxKeys = PageSize \<lparr>Prefix = ''p'', PageSize = 10, Cursor = ''c''\<rparr>\<rparr> [] =
           (Inl 500, [GetCall \<lparr>Get_Prefix = ''p'', Marker = ''c'', MaxKeys = 10\<rparr>])"
    by (simp add: logging_client_def)
  from ListObjectsPaginated_rejects_invalid_input
         [of time_Parse_table ?c "[]" "[]" "\<lparr>Prefix = ''p'', PageSize = 0, Cursor = ''c''\<rparr>"]
  have a: "ListObjectsPaginated time_Parse_table ?c None [] [] =
             (Inl (Errorf ''input cannot be nil''), []) \<and>
           ListObjectsPaginated time_Parse_table ?c
             (Some \<lparr>Prefix = ''p'', PageSize = 0, Cursor = ''c''\<rparr>) [] [] =
             (Inl (Errorf ''page size must be positive''), [])"
    by simp
  from ListObjectsPaginated_rejects_invalid_input
         [of time_Parse_table ?bad "[]" "[]" "\<lparr>Prefix = ''p'', PageSize = 10, Cursor = ''c''\<rparr>"]
       get
  have b: "ListObjectsPaginated time_Parse_table ?bad
     (Some \<lparr>Prefix = ''p'', PageSize = 10, Cursor = ''c''\<rparr>) [] [] =
     (Inl (Wrapf ''list objects failed: '' (SdkError 500)),
      [GetCall \<lparr>Get_Prefix = ''p'', Marker = ''c'', MaxKeys = 10\<rparr>])"
    by simp
  have d: "ListObjectsPaginated time_Parse_table ?c
     (Some \<lparr>Prefix = ''p'', PageSize = 10, Cursor = ''c''\<rparr>) [] [] =
     (Inr \<lparr>Files = [\<lparr>Key = ''a.txt'', LastModified = Time_zero, ETag = [], Size = 10,
                     URL = [], Tagging = None\<rparr>],
           Output_Cursor = [], IsTruncated = False\<rparr>,
      [GetCall \<lparr>Get_Prefix = ''p'', Marker = ''c'', MaxKeys = 10\<rparr>])"
    by (simp add: ListObjectsPaginated_def logging_client_def demo_listing_def
        applyGetOpts_def HasSuffix_def suffix_def parseCosTime_def Trim_def)
  from a b d show ?thesis by simp
qed

text \<open>
  The loop returns a successful result exactly when its run drains a sequence of pages,
  and the result is then the files accumulated before, followed by the files of these
  pages in order, with the state that the last page left.
\<close>

lemma drained_returns:
  "drained time_Parse c pfx opts files cursor s pages \<Longrightarrow>
   ListAllObjects_loop time_Parse c pfx opts files cursor s =
     Some (Inr (files @ concat (map (\<lambda>page. Files (fst page)) pages)), snd (last pages))"
proof (induction pages arbitrary: files cursor s)
  case Nil
  then show ?case by simp
next
  case (Cons page pages)
  from Cons.prems have page: "ListObjectsPaginated time_Parse c
        (Some \<lparr>Prefix = pfx, PageSize = 100, Cursor = cursor\<rparr>) opts s =
        (Inr (fst page), snd page)"
    by simp
  show ?case
  proof (cases "pages = []")
    case True
    with Cons.prems have "10000 \<le> length (files @ Files (fst page)) \<or>
        \<not> IsTruncated (fst page) \<or> Output_Cursor (fst page) = []"
      by simp
    with page True show ?thesis
      by (subst ListAllObjects_loop.simps) (auto simp: Let_def)
  next
    case False
    with Cons.prems have go: "length (files @ Files (fst page)) < 10000"
        "IsTruncated (fst page)" "Output_Cursor (fst page) \<noteq> []"
      and rest: "drained time_Parse c pfx opts (files @ Files (fst page))
              (Output_Cursor (fst page)) (snd page) pages"
      by simp_all
    have "ListAllObjects_loop time_Parse c pfx opts files cursor s =
          ListAllObjects_loop time_Parse c pfx opts (files @ Files (fst page))
            (Output_Cursor (fst page)) (snd page)"
      using page go by (subst ListAllObjects_loop.simps) (simp add: Let_def)
    also have "\<dots> = Some (Inr ((files @ Files (fst page)) @
                  concat (map (\<lambda>page. Files (fst page)) pages)), snd (last pages))"
      using rest by (rule Cons.IH)
    finally show ?thesis using False by simp
  qed
qed

lemma returns_drained:
  assumes "ListAllObjects_loop time_Parse c pfx opts files cursor s = Some y"
  shows "\<forall>r s'. y = (Inr r, s') \<longrightarrow>
           (\<exists>pages. drained time_Parse c pfx opts files cursor s pages \<and>
              r = files @ concat (map (\<lambda>page. Files (fst page)) pages) \<and>
              s' = snd (last pages))"
  using assms
proof (induction time_Parse c pfx opts files cursor s y
    rule: ListAllObjects_loop.raw_induct [rotated, consumes 1, case_names step])
  case (step loop time_Parse c pfx opts files cursor s y)
  obtain p s1 where page: "ListObjectsPaginated time_Parse c
             (Some \<lparr>Prefix = pfx, PageSize = 100, Cursor = cursor\<rparr>) opts s = (p, s1)"
    by (cases "ListObjectsPaginated time_Parse c
             (Some \<lparr>Prefix = pfx, PageSize = 100, Cursor = cursor\<rparr>) opts s")
  show ?case
  proof (cases p)
    case (Inl err)
    with step(2) page show ?thesis by auto
  next
    case (Inr out)
    show ?thesis
    proof (cases "10000 \<le> length (files @ Files out) \<or> \<not> IsTruncated out \<or>
                  Output_Cursor out = []")
      case True
      with step(2) page Inr have y: "y = (Inr (files @ Files out), s1)"
        by (auto simp: Let_def split: if_splits)
      have d: "drained time_Parse c pfx opts files cursor s [(out, s1)]"
        using page Inr True by simp
      show ?thesis
      proof (intro allI impI)
        fix r s' assume "y = (Inr r, s')"
        with y have "r = files @ concat (map (\<lambda>page. Files (fst page)) [(out, s1)]) \<and>
                     s' = snd (last [(out, s1)])"
          by simp
        with d show "\<exists>pages. drained time_Parse c pfx opts files cursor s pages \<and>
              r = files @ concat (map (\<lambda>page. Files (fst page)) pages) \<and>
              s' = snd (last pages)"
          by blast
      qed
    next
      case False
      with step(2) page Inr
      have "loop time_Parse c pfx opts (files @ Files out) (Output_Cursor out) s1 = Some y"
        by (auto simp: Let_def)
      from step(1) [OF this]
      have ih: "\<forall>r s'. y = (Inr r, s') \<longrightarrow>
           (\<exists>pages. drained time_Parse c pfx opts (files @ Files out) (Output_Cursor out) s1
                      pages \<and>
              r = (files @ Files out) @ concat (map (\<lambda>page. Files (fst page)) pages) \<and>
              s' = snd (last pages))" .
      show ?thesis
      proof (intro allI impI)
        fix r s' assume "y = (Inr r, s')"
        with ih obtain pages
          where rest: "drained time_Parse c pfx opts (files @ Files out) (Output_Cursor out)
                         s1 pages"
            and r: "r = (files @ Files out) @ concat (map (\<lambda>page. Files (fst page)) pages)"
            and s': "s' = snd (last pages)"
          by blast
        from rest have ne: "pages \<noteq> []" by (cases pages) simp_all
        have "drained time_Parse c pfx opts files cursor s ((out, s1) # pages)"
          using page Inr False rest ne by simp
        moreover from r have "r = files @ concat (map (\<lambda>page. Files (fst page))
                                                    ((out, s1) # pages))"
          by simp
        moreover from s' ne have "s' = snd (last ((out, s1) # pages))" by simp
        ultimately show "\<exists>pages. drained time_Parse c pfx opts files cursor s pages \<and>
              r = files @ concat (map (\<lambda>page. Files (fst page)) pages) \<and>
              s' = snd (last pages)"
          by blast
      qed
    qed
  qed
qed

lemma ListAllObjects_drains:
  "ListAllObjects time_Parse c pfx opts s = Some (Inr files, s') \<longleftrightarrow>
   (\<exists>pages. drained time_Parse c pfx opts [] [] s pages \<and>
      files = concat (map (\<lambda>page. Files (fst page)) pages) \<and> s' = snd (last pages))"
proof
  assume "ListAllObjects time_Parse c pfx opts s = Some (Inr files, s')"
  then show "\<exists>pages. drained time_Parse c pfx opts [] [] s pages \<and>
      files = concat (map (\<lambda>page. Files (fst page)) pages) \<and> s' = snd (last pages)"
    using returns_drained [of time_Parse c pfx opts "[]" "[]" s "(Inr files, s')"]
    by (simp add: ListAllObjects_def)
next
  assume "\<exists>pages. drained time_Parse c pfx opts [] [] s pages \<and>
      files = concat (map (\<lambda>page. Files (fst page)) pages) \<and> s' = snd (last pages)"
  then obtain pages where "drained time_Parse c pfx opts [] [] s pages"
    and "files = concat (map (\<lambda>page. Files (fst page)) pages)" and "s' = snd (last pages)"
    by blast
  with drained_returns [of time_Parse c pfx opts "[]" "[]" s pages]
  show "ListAllObjects time_Parse c pfx opts s = Some (Inr files, s')"
    by (simp add: ListAllObjects_def)
qed

lemma ListAllObjects_first_page:
  assumes "ListAllObjects time_Parse c pfx opts s = Some (Inr files, s')"
  shows "\<exists>result s1.
           Bucket_Get (client c) \<lparr>Get_Prefix = pfx, Marker = [], MaxKeys = 100\<rparr> s =
             (Inr result, s1) \<and>
           prefix (map Object_Key (filter (\<lambda>obj. \<not> dir_marker obj) (Contents result)))
             (map Key files)"
proof -
  from assms obtain pages where d: "drained time_Parse c pfx opts [] [] s pages"
    and files: "files = concat (map (\<lambda>page. Files (fst page)) pages)"
    using ListAllObjects_drains [of time_Parse c pfx opts s files s'] by blast
  from d obtain page rest where pages: "pages = page # rest" by (cases pages) simp_all
  with d have "ListObjectsPaginated time_Parse c
        (Some \<lparr>Prefix = pfx, PageSize = 100, Cursor = []\<rparr>) opts s =
        (Inr (fst page), snd page)"
    by simp
  from ListObjectsPaginated_page [OF this]
  obtain result :: BucketGetResult and s1
    where get: "Bucket_Get (client c) \<lparr>Get_Prefix = pfx, Marker = [], MaxKeys = 100\<rparr> s =
             (Inr result, s1)"
      and keys: "map Key (Files (fst page)) =
             map Object_Key (filter (\<lambda>obj. \<not> dir_marker obj) (Contents result))"
    by auto
  from files pages keys
  have "prefix (map Object_Key (filter (\<lambda>obj. \<not> dir_marker obj) (Contents result)))
             (map Key files)"
    by (simp add: prefix_def)
  with get show ?thesis by blast
qed

text \<open>
  C4. The files that ListObjectsPaginated returns are the entries of the remote page that
  are not directory markers (size 0 and a key ending in a slash), in their original order:
  their keys and sizes are those of the remaining entries, one by one. ListAllObjects
  returns a list of files exactly when its run drains a sequence of pages, each requested
  from the cursor and in the state that the page before it left, starting from the empty
  cursor; the list is then the concatenation of the files of these pages, in order, and
  it starts with the remaining entries of the first remote page. Neither result holds a
  directory marker.
\<close>

theorem listing_skips_directory_markers:
  "(ListObjectsPaginated time_Parse c input opts s = (Inr out, s') \<longrightarrow>
      (\<exists>inp result s1.
         input = Some inp \<and>
         Bucket_Get (client c)
           \<lparr>Get_Prefix = Prefix inp, Marker = Cursor inp, MaxKeys = PageSize inp\<rparr> s =
           (Inr result, s1) \<and>
         map Key (Files out) =
           map Object_Key (filter (\<lambda>obj. \<not> dir_marker obj) (Contents result)) \<and>
         map Size (Files out) =
           map Object_Size (filter (\<lambda>obj. \<not> dir_marker obj) (Contents result))) \<and>
      (\<forall>f\<in>set (Files out). \<not> (Size f = 0 \<and> HasSuffix (Key f) ''/''))) \<and>
   (ListAllObjects time_Parse c pfx opts s = Some (Inr files, s'') \<longleftrightarrow>
      (\<exists>pages. drained time_Parse c pfx opts [] [] s pages \<and>
         files = concat (map (\<lambda>page. Files (fst page)) pages) \<and> s'' = snd (last pages))) \<and>
   (ListAllObjects time_Parse c pfx opts s = Some (Inr files, s'') \<longrightarrow>
      (\<exists>result s1.
         Bucket_Get (client c) \<lparr>Get_Prefix = pfx, Marker = [], MaxKeys = 100\<rparr> s =
           (Inr result, s1) \<and>
         prefix (map Object_Key (filter (\<lambda>obj. \<not> dir_marker obj) (Contents result)))
           (map Key files)) \<and>
      (\<exists>outs. files = concat (map Files outs) \<and>
         (\<forall>out\<in>set outs. \<exists>cursor0 s0 s1.
            ListObjectsPaginated time_Parse c
              (Some \<lparr>Prefix = pfx, PageSize = 100, Cursor = cursor0\<rparr>) opts s0 =
              (Inr out, s1))) \<and>
      (\<forall>f\<in>set files. \<not> (Size f = 0 \<and> HasSuffix (Key f) ''/'')))"
proof (intro conjI impI)
  assume page: "ListObjectsPaginated time_Parse c input opts s = (Inr out, s')"
  from ListObjectsPaginated_page [OF page]
  show "\<exists>inp result s1.
         input = Some inp \<and>
         Bucket_Get (client c)
           \<lparr>Get_Prefix = Prefix inp, Marker = Cursor inp, MaxKeys = PageSize inp\<rparr> s =
           (Inr result, s1) \<and>
         map Key (Files out) =
           map Object_Key (filter (\<lambda>obj. \<not> dir_marker obj) (Contents result)) \<and>
         map Size (Files out) =
           map Object_Size (filter (\<lambda>obj. \<not> dir_marker obj) (Contents result))"
    by auto
  from ListObjectsPaginated_no_marker [OF page]
  show "\<forall>f\<in>set (Files out). \<not> (Size f = 0 \<and> HasSuffix (Key f) ''/'')"
    by (simp add: dir_marker_file_def)
next
  show "ListAllObjects time_Parse c pfx opts s = Some (Inr files, s'') \<longleftrightarrow>
      (\<exists>pages. drained time_Parse c pfx opts [] [] s pages \<and>
         files = concat (map (\<lambda>page. Files (fst page)) pages) \<and> s'' = snd (last pages))"
    by (rule ListAllObjects_drains)
next
  assume all: "ListAllObjects time_Parse c pfx opts s = Some (Inr files, s'')"
  from ListAllObjects_first_page [OF all]
  show "\<exists>result s1.
         Bucket_Get (client c) \<lparr>Get_Prefix = pfx, Marker = [], MaxKeys = 100\<rparr> s =
           (Inr result, s1) \<and>
         prefix (map Object_Key (filter (\<lambda>obj. \<not> dir_marker obj) (Contents result)))
           (map Key files)" .
  from ListAllObjects_pages [OF all]
  show "\<exists>outs. files = concat (map Files outs) \<and>
         (\<forall>out\<in>set outs. \<exists>cursor0 s0 s1.
            ListObjectsPaginated time_Parse c
              (Some \<lparr>Prefix = pfx, PageSize = 100, Cursor = cursor0\<rparr>) opts s0 =
              (Inr out, s1))" .
  from ListAllObjects_no_marker [OF all]
  show "\<forall>f\<in>set files. \<not> (Size f = 0 \<and> HasSuffix (Key f) ''/'')"
    by (simp add: dir_marker_file_def)
qed

text \<open>The two pages of the paged remote, as ListObjectsPaginated returns them.\<close>

lemma paged_first:
  "ListObjectsPaginated time_Parse_table (logging_client paged_listing demo_tags (\<lambda>k. Inl 404))
     (Some \<lparr>Prefix = ''p'', PageSize = 100, Cursor = []\<rparr>) [] [] =
   (Inr \<lparr>Files = [\<lparr>Key = ''a.txt'', LastModified = Time_zero, ETag = [], Size = 10,
                   URL = [], Tagging = None\<rparr>],
         Output_Cursor = ''a.txt'', IsTruncated = True\<rparr>,
    [GetCall \<lparr>Get_Prefix = ''p'', Marker = [], MaxKeys = 100\<rparr>])"
  by (simp add: ListObjectsPaginated_def logging_client_def paged_listing_def
      applyGetOpts_def HasSuffix_def suffix_def parseCosTime_def Trim_def)

lemma paged_second:
  "ListObjectsPaginated time_Parse_table (logging_client paged_listing demo_tags (\<lambda>k. Inl 404))
     (Some \<lparr>Prefix = ''p'', PageSize = 100, Cursor = ''a.txt''\<rparr>) []
     [GetCall \<lparr>Get_Prefix = ''p'', Marker = [], MaxKeys = 100\<rparr>] =
   (Inr \<lparr>Files = [\<lparr>Key = ''b.txt'', LastModified = Time_zero, ETag = [], Size = 20,
                   URL = [], Tagging = None\<rparr>,
                  \<lparr>Key = ''c.txt'', LastModified = Time_zero, ETag = [], Size = 30,
                   URL = [], Tagging = None\<rparr>],
         Output_Cursor = [], IsTruncated = False\<rparr>,
    [GetCall \<lparr>Get_Prefix = ''p'', Marker = [], MaxKeys = 100\<rparr>,
     GetCall \<lparr>Get_Prefix = ''p'', Marker = ''a.txt'', MaxKeys = 100\<rparr>])"
  by (simp add: ListObjectsPaginated_def logging_client_def paged_listing_def
      applyGetOpts_def HasSuffix_def suffix_def parseCosTime_def Trim_def)

theorem listing_skips_directory_markers_witness:
  "ListObjectsPaginated time_Parse_table (logging_client paged_listing demo_tags (\<lambda>k. Inl 404))
     (Some \<lparr>Prefix = ''p'', PageSize = 100, Cursor = []\<rparr>) [] [] =
   (Inr \<lparr>Files = [\<lparr>Key = ''a.txt'', LastModified = Time_zero, ETag = [], Size = 10,
                   URL = [], Tagging = None\<rparr>],
         Output_Cursor = ''a.txt'', IsTruncated = True\<rparr>,
    [GetCall \<lparr>Get_Prefix = ''p'', Marker = [], MaxKeys = 100\<rparr>]) \<and>
   ListAllObjects time_Parse_table (logging_client paged_listing demo_tags (\<lambda>k. Inl 404))
     ''p'' [] [] =
   Some (Inr [\<lparr>Key = ''a.txt'', LastModified = Time_zero, ETag = [], Size = 10,
               URL = [], Tagging = None\<rparr>,
              \<lparr>Key = ''b.txt'', LastModified = Time_zero, ETag = [], Size = 20,
               URL = [], Tagging = None\<rparr>,
              \<lparr>Key = ''c.txt'', LastModified = Time_zero, ETag = [], Size = 30,
               URL = [], Tagging = None\<rparr>],
         [GetCall \<lparr>Get_Prefix = ''p'', Marker = [], MaxKeys = 100\<rparr>,
          GetCall \<lparr>Get_Prefix = ''p'', Marker = ''a.txt'', MaxKeys = 100\<rparr>])"
proof -
  let ?c = "logging_client paged_listing demo_tags (\<lambda>k. Inl 404)"
  let ?a = "\<lparr>Key = ''a.txt'', LastModified = Time_zero, ETag = [], Size = 10,
             URL = [], Tagging = None\<rparr>"
  let ?b = "\<lparr>Key = ''b.txt'', LastModified = Time_zero, ETag = [], Size = 20,
             URL = [], Tagging = None\<rparr>"
  let ?d = "\<lparr>Key = ''c.txt'', LastModified = Time_zero, ETag = [], Size = 30,
             URL = [], Tagging = None\<rparr>"
  let ?g1 = "GetCall \<lparr>Get_Prefix = ''p'', Marker = [], MaxKeys = 100\<rparr>"
  let ?g2 = "GetCall \<lparr>Get_Prefix = ''p'', Marker = ''a.txt'', MaxKeys = 100\<rparr>"
  let ?pages = "[(\<lparr>Files = [?a], Output_Cursor = ''a.txt'', IsTruncated = True\<rparr>, [?g1]),
                 (\<lparr>Files = [?b, ?d], Output_Cursor = [], IsTruncated = False\<rparr>, [?g1, ?g2])]"
  have run: "drained time_Parse_table ?c ''p'' [] [] [] [] ?pages"
    using paged_first paged_second by simp
  have "\<exists>pages. drained time_Parse_table ?c ''p'' [] [] [] [] pages \<and>
          [?a, ?b, ?d] = concat (map (\<lambda>page. Files (fst page)) pages) \<and>
          [?g1, ?g2] = snd (last pages)"
    using run by (intro exI [of _ ?pages]) simp
  moreover
  from listing_skips_directory_markers
         [where time_Parse = time_Parse_table and c = ?c and pfx = "''p''" and opts = "[]"
            and s = "[]" and files = "[?a, ?b, ?d]" and s'' = "[?g1, ?g2]"]
  have "ListAllObjects time_Parse_table ?c ''p'' [] [] = Some (Inr [?a, ?b, ?d], [?g1, ?g2]) \<longleftrightarrow>
        (\<exists>pages. drained time_Parse_table ?c ''p'' [] [] [] [] pages \<and>
          [?a, ?b, ?d] = concat (map (\<lambda>page. Files (fst page)) pages) \<and>
          [?g1, ?g2] = snd (last pages))"
    by (rule conjunct1 [OF conjunct2])
  ultimately have "ListAllObjects time_Parse_table ?c ''p'' [] [] =
                     Some (Inr [?a, ?b, ?d], [?g1, ?g2])"
    by (rule iffD2 [rotated])
  with paged_first show ?thesis by simp
qed





text \<open>
  The run of ListAllObjects against the endless remote: each page brings 99 files, so the
  first 101 pages bring 9999 files, and the 102nd page is appended whole.
\<close>

lemma endless_page:
  "ListObjectsPaginated time_Parse (logging_client endless_listing demo_tags (\<lambda>k. Inl 404))
     (Some \<lparr>Prefix = ''p'', PageSize = 100, Cursor = cursor\<rparr>) [] log =
   (Inr \<lparr>Files = replicate 99 demo_file, Output_Cursor = ''m'', IsTruncated = True\<rparr>,
    log @ [GetCall \<lparr>Get_Prefix = ''p'', Marker = cursor, MaxKeys = 100\<rparr>])"
proof -
  have "ListObjectsPaginated_files time_Parse
          (replicate 99 \<lparr>Object_Key = ''a.txt'', Object_ETag = [], Object_Size = 10,
                          Object_LastModified = []\<rparr> @
           [\<lparr>Object_Key = ''folder/'', Object_ETag = [], Object_Size = 0,
             Object_LastModified = []\<rparr>]) = replicate 99 demo_file"
    by (simp add: ListObjectsPaginated_files_filter dir_marker_def HasSuffix_def suffix_def
        demo_file_def parseCosTime_def Trim_def)
  then show ?thesis
    by (simp add: ListObjectsPaginated_def logging_client_def endless_listing_def
        applyGetOpts_def)
qed

lemma endless_loop:
  "length files = 99 * (102 - j) \<Longrightarrow> 1 \<le> j \<Longrightarrow> j \<le> 102 \<Longrightarrow>
   ListAllObjects_loop time_Parse (logging_client endless_listing demo_tags (\<lambda>k. Inl 404))
     ''p'' [] files cursor log =
   Some (Inr (files @ replicate (99 * j) demo_file),
         log @ GetCall \<lparr>Get_Prefix = ''p'', Marker = cursor, MaxKeys = 100\<rparr> #
               replicate (j - 1) (GetCall \<lparr>Get_Prefix = ''p'', Marker = ''m'', MaxKeys = 100\<rparr>))"
proof (induction j arbitrary: files cursor log)
  case 0
  then show ?case by simp
next
  case (Suc j)
  show ?case
  proof (cases "j = 0")
    case True
    with Suc.prems have "length files = 9999" by simp
    then have "10000 \<le> length (files @ replicate 99 demo_file)" by simp
    with True show ?thesis
      by (subst ListAllObjects_loop.simps) (simp add: endless_page)
  next
    case False
    with Suc.prems have len: "length files = 99 * (101 - j)" and j: "1 \<le> j" "j \<le> 101"
      by simp_all
    from len j have more: "length (files @ replicate 99 demo_file) = 99 * (102 - j)"
      by simp
    from j have "99 * (102 - j) < 10000" by simp
    with more have small: "\<not> 10000 \<le> length (files @ replicate 99 demo_file)"
      by simp
    have "ListAllObjects_loop time_Parse
            (logging_client endless_listing demo_tags (\<lambda>k. Inl 404)) ''p'' [] files cursor log =
          ListAllObjects_loop time_Parse
            (logging_client endless_listing demo_tags (\<lambda>k. Inl 404)) ''p'' []
            (files @ replicate 99 demo_file) ''m''
            (log @ [GetCall \<lparr>Get_Prefix = ''p'', Marker = cursor, MaxKeys = 100\<rparr>])"
      using small by (subst ListAllObjects_loop.simps) (simp add: endless_page)
    also have "\<dots> =
      Some (Inr ((files @ replicate 99 demo_file) @ replicate (99 * j) demo_file),
         (log @ [GetCall \<lparr>Get_Prefix = ''p'', Marker = cursor, MaxKeys = 100\<rparr>]) @
          GetCall \<lparr>Get_Prefix = ''p'', Marker = ''m'', MaxKeys = 100\<rparr> #
               replicate (j - 1) (GetCall \<lparr>Get_Prefix = ''p'', Marker = ''m'', MaxKeys = 100\<rparr>))"
      using more j by (intro Suc.IH) simp_all
    also have "(files @ replicate 99 demo_file) @ replicate (99 * j) demo_file =
               files @ replicate (99 * Suc j) demo_file"
      by (simp add: replicate_add [symmetric])
    also have "GetCall \<lparr>Get_Prefix = ''p'', Marker = ''m'', MaxKeys = 100\<rparr> #
               replicate (j - 1) (GetCall \<lparr>Get_Prefix = ''p'', Marker = ''m'', MaxKeys = 100\<rparr>) =
               replicate (Suc j - 1) (GetCall \<lparr>Get_Prefix = ''p'', Marker = ''m'', MaxKeys = 100\<rparr>)"
      using j by (cases j) simp_all
    finally show ?thesis by simp
  qed
qed

lemma endless_run:
  "ListAllObjects time_Parse (logging_client endless_listing demo_tags (\<lambda>k. Inl 404))
     ''p'' [] [] =
   Some (Inr (replicate 10098 demo_file),
         GetCall \<lparr>Get_Prefix = ''p'', Marker = [], MaxKeys = 100\<rparr> #
         replicate 101 (GetCall \<lparr>Get_Prefix = ''p'', Marker = ''m'', MaxKeys = 100\<rparr>))"
  using endless_loop [of "[]" 102 time_Parse "[]" "[]"]
  by (simp add: ListAllObjects_def)

lemma endless_respects_MaxKeys:
  "respects_MaxKeys (logging_client endless_listing demo_tags (\<lambda>k. Inl 404))"
  by (auto simp: respects_MaxKeys_def logging_client_def endless_listing_def)

lemma endless_yields_files:
  "yields_files (logging_client endless_listing demo_tags (\<lambda>k. Inl 404))"
proof -
  have "\<exists>obj\<in>set (take (nat m)
            (replicate 99 \<lparr>Object_Key = ''a.txt'', Object_ETag = [], Object_Size = 10,
                            Object_LastModified = []\<rparr> @
             [\<lparr>Object_Key = ''folder/'', Object_ETag = [], Object_Size = 0,
               Object_LastModified = []\<rparr>])). \<not> dir_marker obj" if "0 < m" for m :: int
  proof -
    from that obtain k where "nat m = Suc k" by (cases "nat m") auto
    then show ?thesis
      by (simp add: dir_marker_def numeral_eq_Suc)
  qed
  then show ?thesis
    by (auto simp: yields_files_def logging_client_def endless_listing_def)
qed

text \<open>
  The loop returns only if the remote lets it: against the remote that reports truncation
  forever with empty pages it never reaches the cap, and does not return.
\<close>

lemma barren_page:
  "ListObjectsPaginated time_Parse (logging_client barren_listing demo_tags (\<lambda>k. Inl 404))
     (Some \<lparr>Prefix = pfx, PageSize = 100, Cursor = cursor\<rparr>) [] log =
   (Inr \<lparr>Files = [], Output_Cursor = ''m'', IsTruncated = True\<rparr>,
    log @ [GetCall \<lparr>Get_Prefix = pfx, Marker = cursor, MaxKeys = 100\<rparr>])"
  by (simp add: ListObjectsPaginated_def logging_client_def barren_listing_def applyGetOpts_def)

lemma barren_loop:
  assumes "ListAllObjects_loop time_Parse c pfx opts files cursor log = Some y"
  shows "c = logging_client barren_listing demo_tags (\<lambda>k. Inl 404) \<longrightarrow> opts = [] \<longrightarrow>
         files = [] \<longrightarrow> False"
  using assms
proof (induction time_Parse c pfx opts files cursor log y
    rule: ListAllObjects_loop.raw_induct [rotated, consumes 1, case_names step])
  case (step loop time_Parse c pfx opts files cursor log y)
  show ?case
  proof (intro impI)
    assume c: "c = logging_client barren_listing demo_tags (\<lambda>k. Inl 404)"
      and opts: "opts = []" and files: "files = []"
    from step(2) have "loop time_Parse c pfx opts [] ''m''
        (log @ [GetCall \<lparr>Get_Prefix = pfx, Marker = cursor, MaxKeys = 100\<rparr>]) = Some y"
      unfolding c opts files by (simp add: barren_page)
    from step(1) [OF this] c opts show False by simp
  qed
qed

lemma barren_run:
  "ListAllObjects time_Parse (logging_client barren_listing demo_tags (\<lambda>k. Inl 404))
     pfx [] log = None"
proof (cases "ListAllObjects time_Parse (logging_client barren_listing demo_tags (\<lambda>k. Inl 404))
     pfx [] log")
  case None
  then show ?thesis .
next
  case (Some y)
  then show ?thesis
    using barren_loop [of time_Parse "logging_client barren_listing demo_tags (\<lambda>k. Inl 404)"
                          pfx "[]" "[]" "[]" log y]
    by (simp add: ListAllObjects_def)
qed

text \<open>
  C1 (amended). ListAllObjects stops as soon as the files accumulated, the page just
  fetched included, are 10000 or more, and returns them all as a successful result: the
  page that reaches the cap is not cut. Against a remote that respects MaxKeys the result
  therefore has fewer than 10100 files. The loop returns for every remote that yields
  files, also when the remote reports truncation forever.
\<close>

theorem ListAllObjects_stops_at_cap:
  "(respects_MaxKeys c \<and> ListAllObjects time_Parse c pfx opts s = Some (Inr files, s') \<longrightarrow>
      length files < 10100) \<and>
   (yields_files c \<longrightarrow> (\<exists>y. ListAllObjects time_Parse c pfx opts s = Some y)) \<and>
   (ListObjectsPaginated time_Parse c
      (Some \<lparr>Prefix = pfx, PageSize = 100, Cursor = cursor\<rparr>) opts s = (Inr out, s1) \<and>
    10000 \<le> length (acc @ Files out) \<longrightarrow>
      ListAllObjects_loop time_Parse c pfx opts acc cursor s =
        Some (Inr (acc @ Files out), s1))"
proof (intro conjI impI)
  assume "respects_MaxKeys c \<and> ListAllObjects time_Parse c pfx opts s = Some (Inr files, s')"
  then show "length files < 10100"
    using ListAllObjects_loop_bound
            [of time_Parse c pfx opts "[]" "[]" s "(Inr files, s')"]
    by (simp add: ListAllObjects_def)
next
  assume "yields_files c"
  then show "\<exists>y. ListAllObjects time_Parse c pfx opts s = Some y"
    unfolding ListAllObjects_def by (rule ListAllObjects_loop_returns)
next
  assume "ListObjectsPaginated time_Parse c
      (Some \<lparr>Prefix = pfx, PageSize = 100, Cursor = cursor\<rparr>) opts s = (Inr out, s1) \<and>
    10000 \<le> length (acc @ Files out)"
  then show "ListAllObjects_loop time_Parse c pfx opts acc cursor s =
        Some (Inr (acc @ Files out), s1)"
    by (simp add: ListAllObjects_loop_stops_at_cap)
qed

theorem ListAllObjects_stops_at_cap_witness:
  "respects_MaxKeys (logging_client endless_listing demo_tags (\<lambda>k. Inl 404)) \<and>
   yields_files (logging_client endless_listing demo_tags (\<lambda>k. Inl 404)) \<and>
   ListAllObjects time_Parse_table (logging_client endless_listing demo_tags (\<lambda>k. Inl 404))
     ''p'' [] [] =
   Some (Inr (replicate 10098 demo_file),
         GetCall \<lparr>Get_Prefix = ''p'', Marker = [], MaxKeys = 100\<rparr> #
         replicate 101 (GetCall \<lparr>Get_Prefix = ''p'', Marker = ''m'', MaxKeys = 100\<rparr>)) \<and>
   length (replicate 10098 demo_file) < 10100"
  using ListAllObjects_stops_at_cap
          [of "logging_client endless_listing demo_tags (\<lambda>k. Inl 404)" time_Parse_table
              "''p''" "[]" "[]" "replicate 10098 demo_file"
              "GetCall \<lparr>Get_Prefix = ''p'', Marker = [], MaxKeys = 100\<rparr> #
               replicate 101 (GetCall \<lparr>Get_Prefix = ''p'', Marker = ''m'', MaxKeys = 100\<rparr>)"]
        endless_respects_MaxKeys endless_yields_files endless_run [of time_Parse_table]
  by blast

theorem ListAllObjects_stops_at_cap_counterexample:
  "ListAllObjects time_Parse_table (logging_client endless_listing demo_tags (\<lambda>k. Inl 404))
     ''p'' [] [] =
   Some (Inr (replicate 10098 demo_file),
         GetCall \<lparr>Get_Prefix = ''p'', Marker = [], MaxKeys = 100\<rparr> #
         replicate 101 (GetCall \<lparr>Get_Prefix = ''p'', Marker = ''m'', MaxKeys = 100\<rparr>)) \<and>
   \<not> length (replicate 10098 demo_file) \<le> 10000"
  using endless_run [of time_Parse_table] by simp

end
